theory Spec2Isabelle
  imports Complex_Main "HOL-Library.Word"
begin

section \<open>Waveform overlay: a model of the Python sources\<close>

text \<open>
  The overlay is a GTK window driven by periodic callbacks. The model keeps the fields
  the callbacks read and write and makes every outside influence an explicit argument:
  the microphone stream's answer to one \<open>get_level\<close> call, the draws of
  \<open>random.uniform\<close>, the presence of the signal files, the clock.

  Python floats are modelled as reals: rounding, NaN and the infinities are not
  represented. Python ints are \<open>int\<close>; list lengths and loop indices are \<open>nat\<close>.
  Calls into GTK (\<open>set_opacity\<close>, \<open>queue_draw\<close>, \<open>move\<close>) are recorded in an
  effect log and are taken not to raise. Writing log lines to the log file is left
  out; what \<open>log_error\<close> does to the global error state is kept.
\<close>

subsection \<open>errors.py\<close>

datatype error_category =
  UI_RENDER | AUDIO_INPUT | FILE_IO | SIGNAL_CHECK | ANIMATION | WINDOW_MGMT | CLEANUP | UNKNOWN

fun category_name :: "error_category \<Rightarrow> string" where
  "category_name UI_RENDER = ''UI_RENDER''"
| "category_name AUDIO_INPUT = ''AUDIO_INPUT''"
| "category_name FILE_IO = ''FILE_IO''"
| "category_name SIGNAL_CHECK = ''SIGNAL_CHECK''"
| "category_name ANIMATION = ''ANIMATION''"
| "category_name WINDOW_MGMT = ''WINDOW_MGMT''"
| "category_name CLEANUP = ''CLEANUP''"
| "category_name UNKNOWN = ''UNKNOWN''"

text \<open>
  The singleton \<open>ErrorState\<close>. \<open>consecutive_errors\<close> is the dict
  \<open>_consecutive_errors\<close>, read only through \<open>.get(key, 0)\<close>: a total function
  with 0 for an absent key. The counters \<open>error_counts\<close>, \<open>last_error\<close> and
  \<open>active_errors\<close> influence nothing and are left out.
\<close>

record error_state =
  audio_degraded :: bool
  rendering_degraded :: bool
  consecutive_errors :: "string \<Rightarrow> nat"

definition error_state_init :: error_state where
  "error_state_init =
     \<lparr>audio_degraded = False, rendering_degraded = False, consecutive_errors = (\<lambda>_. 0)\<rparr>"

definition max_consecutive :: nat where
  "max_consecutive = 5"

definition record_error :: "error_category \<Rightarrow> string \<Rightarrow> error_state \<Rightarrow> error_state" where
  "record_error category context es =
     (let key = category_name category @ '':'' @ context;
          n = consecutive_errors es key + 1;
          es1 = es\<lparr>consecutive_errors := (consecutive_errors es)(key := n)\<rparr>
      in if n \<ge> max_consecutive then
           (if category = AUDIO_INPUT then es1\<lparr>audio_degraded := True\<rparr>
            else if category = UI_RENDER then es1\<lparr>rendering_degraded := True\<rparr>
            else es1)
         else es1)"

text \<open>
  An exception with the text \<open>str(e)\<close> that the log messages embed. \<open>IOError\<close> is
  Python 3's \<open>OSError\<close>; \<open>OtherException\<close> stands for every other subclass of
  \<open>Exception\<close>. What is not an \<open>Exception\<close> (\<open>KeyboardInterrupt\<close>, \<open>SystemExit\<close>)
  is not raised by the calls modelled here.
\<close>

datatype exn = IOError string | StructError string | IndexError string | OtherException string

fun exn_text :: "exn \<Rightarrow> string" where
  "exn_text (IOError m) = m"
| "exn_text (StructError m) = m"
| "exn_text (IndexError m) = m"
| "exn_text (OtherException m) = m"

text \<open>\<open>log_error\<close> is always called with the exception, so it always records.\<close>

definition log_error :: "error_category \<Rightarrow> string \<Rightarrow> error_state \<Rightarrow> error_state" where
  "log_error category message es = record_error category message es"

subsection \<open>Effects\<close>

datatype effect =
  StreamIsActive | StreamRead | StreamStop | StreamClose | AudioTerminate
| AudioCleanup | MainQuit
| SetOpacity real | QueueDraw | TimerAreaQueueDraw | WaveformAreaQueueDraw
| Move int int | RemoveFile string

subsection \<open>audio.py\<close>

text \<open>
  \<open>audio\<close> and \<open>stream\<close> say whether the attribute holds an object (\<open>True\<close>)
  or \<open>None\<close>. The field \<open>processing_mode\<close> of the class is \<open>ai_processing_mode\<close>
  here. \<open>_max_read_errors\<close> is assigned once, in \<open>__init__\<close>.
\<close>

record audio_input =
  audio :: bool
  stream :: bool
  ai_processing_mode :: bool
  setup_failed :: bool
  read_errors :: int

definition max_read_errors :: int where
  "max_read_errors = 10"

definition audio_input_init :: audio_input where
  "audio_input_init =
     \<lparr>audio = False, stream = False, ai_processing_mode = False, setup_failed = False,
      read_errors = 0\<rparr>"

text \<open>How the device answers \<open>setup\<close>.\<close>

datatype setup_event =
  PyAudioRaises exn | NoDevices | NoDefaultInput | OpenRaises exn | SetupOk

definition cleanup_partial :: "audio_input \<Rightarrow> audio_input \<times> effect list" where
  "cleanup_partial ai =
     (ai\<lparr>stream := False, audio := False\<rparr>,
      (if stream ai then [StreamClose] else []) @ (if audio ai then [AudioTerminate] else []))"

definition setup_failure_message :: "exn \<Rightarrow> string" where
  "setup_failure_message e =
     (case e of IOError m \<Rightarrow> ''Audio device error: '' @ m
      | _ \<Rightarrow> ''Audio setup failed: '' @ exn_text e)"

text \<open>\<open>AudioInput.setup\<close>, named \<open>audio_setup\<close> here.\<close>

definition audio_setup :: "setup_event \<Rightarrow> audio_input \<Rightarrow> error_state
    \<Rightarrow> bool \<times> audio_input \<times> error_state \<times> effect list" where
  "audio_setup ev ai es =
     (case ev of
        PyAudioRaises e \<Rightarrow>
          (let (ai', fx) = cleanup_partial (ai\<lparr>setup_failed := True\<rparr>)
           in (False, ai', log_error AUDIO_INPUT (setup_failure_message e) es, fx))
      | NoDevices \<Rightarrow> (False, ai\<lparr>audio := True, setup_failed := True\<rparr>, es, [])
      | NoDefaultInput \<Rightarrow> (False, ai\<lparr>audio := True, setup_failed := True\<rparr>, es, [])
      | OpenRaises e \<Rightarrow>
          (let (ai', fx) = cleanup_partial (ai\<lparr>audio := True, setup_failed := True\<rparr>)
           in (False, ai', log_error AUDIO_INPUT (setup_failure_message e) es, fx))
      | SetupOk \<Rightarrow>
          (True, ai\<lparr>audio := True, stream := True, setup_failed := False, read_errors := 0\<rparr>,
           es, []))"

text \<open>
  How the stream answers one \<open>get_level\<close> call that reaches it: \<open>is_active()\<close>
  raises, or says no; or says yes and \<open>read\<close> raises or returns bytes.
\<close>

datatype stream_event =
  IsActiveRaises exn | Inactive | ReadRaises exn | ReadData "8 word list"

text \<open>
  \<open>struct.unpack(f'{count}h', data)\<close>: \<open>count\<close> signed 16-bit values in native
  byte order, taken as little-endian; \<open>struct.error\<close> unless the buffer has exactly
  \<open>2 * count\<close> bytes.
\<close>

fun le_shorts :: "8 word list \<Rightarrow> int list" where
  "le_shorts (lo # hi # rest) = sint (word_cat hi lo :: 16 word) # le_shorts rest"
| "le_shorts _ = []"

definition struct_unpack :: "nat \<Rightarrow> 8 word list \<Rightarrow> exn + int list" where
  "struct_unpack count data =
     (if length data = 2 * count then Inr (le_shorts data)
      else Inl (StructError ''unpack requires a buffer of the right size''))"

text \<open>
  The body of the \<open>try\<close> block of \<open>get_level\<close>: the level, the state and the
  stream calls made, or the exception raised with the stream calls made before it.
\<close>

definition get_level_try :: "stream_event \<Rightarrow> audio_input
    \<Rightarrow> (exn \<times> effect list) + (real \<times> audio_input \<times> effect list)" where
  "get_level_try ev ai =
     (case ev of
        IsActiveRaises e \<Rightarrow> Inl (e, [StreamIsActive])
      | Inactive \<Rightarrow> Inr (0, ai\<lparr>read_errors := read_errors ai + 1\<rparr>, [StreamIsActive])
      | ReadRaises e \<Rightarrow> Inl (e, [StreamIsActive, StreamRead])
      | ReadData data \<Rightarrow>
          (let count = length data div 2 in
           if count = 0 then Inr (0, ai, [StreamIsActive, StreamRead])
           else
             (case struct_unpack count data of
                Inl e \<Rightarrow> Inl (e, [StreamIsActive, StreamRead])
              | Inr shorts \<Rightarrow>
                  (let sum_squares = sum_list (map (\<lambda>s. s ^ 2) shorts);
                       rms = sqrt (real_of_int sum_squares / real count);
                       normalized = min (rms / 3000) 1;
                       ai' = (if read_errors ai > 0
                              then ai\<lparr>read_errors := max 0 (read_errors ai - 1)\<rparr> else ai)
                   in Inr (normalized, ai', [StreamIsActive, StreamRead])))))"

text \<open>
  \<open>get_level\<close> returns the level, the two states and the stream calls it made. The
  three \<open>except\<close> clauses are tried in the source's order; the last one takes every
  other \<open>Exception\<close>.
\<close>

definition get_level :: "stream_event \<Rightarrow> audio_input \<Rightarrow> error_state
    \<Rightarrow> real \<times> audio_input \<times> error_state \<times> effect list" where
  "get_level ev ai es =
     (if setup_failed ai \<or> ai_processing_mode ai then (0, ai, es, [])
      else if \<not> stream ai then (0, ai, es, [])
      else if read_errors ai \<ge> max_read_errors then
        (0, ai, (if \<not> audio_degraded es then es\<lparr>audio_degraded := True\<rparr> else es), [])
      else
        (case get_level_try ev ai of
           Inr (level, ai', fx) \<Rightarrow> (level, ai', es, fx)
         | Inl (e, fx) \<Rightarrow>
             (case e of
                IOError m \<Rightarrow> (0, ai\<lparr>read_errors := read_errors ai + 1\<rparr>, es, fx)
              | StructError m \<Rightarrow> (0, ai\<lparr>read_errors := read_errors ai + 1\<rparr>, es, fx)
              | _ \<Rightarrow>
                  (0, ai\<lparr>read_errors := read_errors ai + 1\<rparr>,
                   log_error AUDIO_INPUT (''Unexpected audio error: '' @ exn_text e) es, fx))))"

definition set_processing_mode :: "bool \<Rightarrow> audio_input \<Rightarrow> audio_input" where
  "set_processing_mode enabled ai = ai\<lparr>ai_processing_mode := enabled\<rparr>"

definition is_available :: "audio_input \<Rightarrow> bool" where
  "is_available ai = (\<not> setup_failed ai \<and> stream ai \<and> read_errors ai < max_read_errors)"

text \<open>
  \<open>cleanup\<close>: each step is in its own \<open>try\<close>, so every step is attempted.
  \<open>AudioCleanup\<close> marks the call itself.
\<close>

definition cleanup :: "audio_input \<Rightarrow> audio_input \<times> effect list" where
  "cleanup ai =
     (ai\<lparr>stream := False, audio := False\<rparr>,
      [AudioCleanup] @ (if stream ai then [StreamStop, StreamClose] else [])
        @ (if audio ai then [AudioTerminate] else []))"

subsection \<open>main.py: the overlay state\<close>

text \<open>What a method call does: it returns a value or raises. The state is returned
  beside it, since Python keeps what was assigned before the exception.\<close>

datatype 'a outcome = Returned 'a | Raised exn

text \<open>
  The fields of \<open>WaveformOverlay\<close> that the callbacks use. \<open>shutting_down\<close> is
  \<open>_shutting_down\<close>; \<open>audio_in\<close> is \<open>audio_input\<close>; \<open>opacity\<close> is the window
  opacity last given to \<open>set_opacity\<close>; \<open>effects\<close> logs the calls into GTK, the
  stream and the file system, newest last; \<open>errs\<close> is the global \<open>error_state\<close>.
\<close>

record overlay =
  start_time :: real
  processing_mode :: bool
  is_offline :: bool
  processing_start_time :: "real option"
  shutting_down :: bool
  animation_progress :: real
  is_closing :: bool
  target_y :: int
  current_y :: int
  num_bars :: nat
  bars :: "real list"
  target_bars :: "real list"
  spinner_angle :: real
  audio_in :: audio_input
  audio_levels :: "real list"
  overall_audio_level :: real
  opacity :: real
  effects :: "effect list"
  errs :: error_state

text \<open>\<open>__init__\<close>, at clock reading \<open>now\<close>, with the device answering \<open>ev\<close>.\<close>

definition overlay_init :: "real \<Rightarrow> setup_event \<Rightarrow> overlay" where
  "overlay_init now ev =
     (let (audio_ok, ai, es, fx) = audio_setup ev audio_input_init error_state_init in
      \<lparr>start_time = now, processing_mode = False, is_offline = False,
       processing_start_time = None, shutting_down = False,
       animation_progress = 0, is_closing = False, target_y = 0, current_y = 0,
       num_bars = 16, bars = replicate 16 0.1, target_bars = replicate 16 0.1,
       spinner_angle = 0, audio_in = ai, audio_levels = replicate 16 0,
       overall_audio_level = 0, opacity = 0, effects = fx @ [SetOpacity 0], errs = es\<rparr>)"

subsection \<open>main.py: update_audio_levels\<close>

text \<open>
  \<open>random.uniform(a, b)\<close> of the Python library is \<open>a + (b - a) * self.random()\<close>,
  where \<open>random()\<close> returns a float in \<open>[0, 1)\<close>. Here \<open>u\<close> is that draw.
\<close>

definition uniform :: "real \<Rightarrow> real \<Rightarrow> real \<Rightarrow> real" where
  "uniform a b u = a + (b - a) * u"

text \<open>
  The loop over \<open>range(num_bars)\<close>. \<open>rnd i\<close> is the draw \<open>random()\<close> makes inside
  \<open>random.uniform(0.8, 1.2)\<close> in iteration \<open>i\<close>: every bar has a draw of its own. The index \<open>num_bars - 1 - i\<close> is never negative for
  \<open>i\<close> in the range, so it is a \<open>nat\<close>. A read or a store past the end raises
  \<open>IndexError\<close>; the list keeps the stores made before.
\<close>

fun update_target_bars :: "nat list \<Rightarrow> (nat \<Rightarrow> real) \<Rightarrow> nat \<Rightarrow> real list \<Rightarrow> real list
    \<Rightarrow> exn option \<times> real list" where
  "update_target_bars [] rnd nb al tb = (None, tb)"
| "update_target_bars (i # is) rnd nb al tb =
     (let audio_index = nb - 1 - i in
      if audio_index \<ge> length al then (Some (IndexError ''list index out of range''), tb)
      else
        (let audio_val = al ! audio_index;
             random_factor = uniform 0.8 1.2 (rnd i)
         in if i \<ge> length tb
            then (Some (IndexError ''list assignment index out of range''), tb)
            else
              (let t = min (audio_val * random_factor) 1;
                   t' = (if t < 0.1 then 0.1 else t)
               in update_target_bars is rnd nb al (tb[i := t']))))"

text \<open>Lines 199 to 218: what \<open>update_audio_levels\<close> does with the level it has read.\<close>

definition apply_level :: "real \<Rightarrow> (nat \<Rightarrow> real) \<Rightarrow> overlay \<Rightarrow> bool outcome \<times> overlay" where
  "apply_level level rnd s =
     (let s1 = s\<lparr>overall_audio_level := overall_audio_level s * 0.7 + level * 0.3\<rparr> in
      case audio_levels s1 of
        [] \<Rightarrow> (Raised (IndexError ''pop from empty list''), s1)
      | oldest # rest \<Rightarrow>
          (let s2 = s1\<lparr>audio_levels := rest @ [level]\<rparr> in
           case update_target_bars [0..<num_bars s2] rnd (num_bars s2)
                  (audio_levels s2) (target_bars s2) of
             (None, tb) \<Rightarrow> (Returned True, s2\<lparr>target_bars := tb\<rparr>)
           | (Some e, tb) \<Rightarrow> (Raised e, s2\<lparr>target_bars := tb\<rparr>)))"

definition update_audio_levels :: "stream_event \<Rightarrow> (nat \<Rightarrow> real) \<Rightarrow> overlay
    \<Rightarrow> bool outcome \<times> overlay" where
  "update_audio_levels ev rnd s =
     (if processing_mode s then (Returned True, s)
      else
        (let (level, ai, es, fx) = get_level ev (audio_in s) (errs s) in
         apply_level level rnd (s\<lparr>audio_in := ai, errs := es, effects := effects s @ fx\<rparr>)))"

subsection \<open>main.py: teardown\<close>

text \<open>\<open>safe_cleanup(self.audio_input.cleanup, lambda: Gtk.main_quit())\<close>: both are
  attempted, in this order.\<close>

definition safe_cleanup :: "overlay \<Rightarrow> overlay" where
  "safe_cleanup s =
     (let (ai, fx) = cleanup (audio_in s) in
      s\<lparr>audio_in := ai, effects := effects s @ fx @ [MainQuit]\<rparr>)"

definition on_destroy :: "overlay \<Rightarrow> overlay" where
  "on_destroy s =
     (if shutting_down s then s
      else safe_cleanup (s\<lparr>shutting_down := True\<rparr>))"

subsection \<open>main.py: animate_entrance\<close>

definition animate_entrance :: "overlay \<Rightarrow> bool \<times> overlay" where
  "animate_entrance s =
     (let show_eased = (\<lambda>s'. 
            let eased = 1 - (1 - animation_progress s') ^ 3 in
            (True, s'\<lparr>opacity := eased,
                      effects := effects s' @ [SetOpacity eased, QueueDraw]\<rparr>))
      in
      if is_closing s then
        (let s1 = s\<lparr>animation_progress := animation_progress s - 0.04\<rparr> in
         if animation_progress s1 \<le> 0 then
           (let s2 = s1\<lparr>animation_progress := 0\<rparr> in
            (False, if \<not> shutting_down s2
                    then safe_cleanup (s2\<lparr>shutting_down := True\<rparr>) else s2))
         else show_eased s1)
      else
        (if animation_progress s < 1 then
           (let s1 = s\<lparr>animation_progress := animation_progress s + 0.04\<rparr> in
            show_eased (if animation_progress s1 > 1 then s1\<lparr>animation_progress := 1\<rparr> else s1))
         else show_eased s))"

definition check_close_signal :: "bool \<Rightarrow> overlay \<Rightarrow> bool \<times> overlay" where
  "check_close_signal file_exists s =
     (if file_exists \<and> \<not> is_closing s
      then (True, s\<lparr>is_closing := True,
                     effects := effects s @ [RemoveFile ''/tmp/groq_close_animation'']\<rparr>)
      else (True, s))"

definition close_with_animation :: "overlay \<Rightarrow> overlay" where
  "close_with_animation s = s\<lparr>is_closing := True\<rparr>"

subsection \<open>main.py: check_processing_mode, position_window\<close>

definition check_processing_mode :: "bool \<Rightarrow> bool \<Rightarrow> real \<Rightarrow> overlay \<Rightarrow> bool \<times> overlay" where
  "check_processing_mode processing_file error_file now s =
     (let s1 = (if processing_file \<and> \<not> processing_mode s
                then s\<lparr>processing_mode := True,
                       audio_in := set_processing_mode True (audio_in s),
                       processing_start_time := Some now,
                       spinner_angle := 0,
                       effects := effects s @ [RemoveFile ''/tmp/groq_processing_mode'']\<rparr>
                else s);
          s2 = (if error_file
                then s1\<lparr>is_offline := True,
                        effects := effects s1
                          @ [QueueDraw, RemoveFile ''/tmp/groq_connection_error'']\<rparr>
                else s1)
      in (True, s2))"

definition position_window :: "int \<Rightarrow> int \<Rightarrow> int \<Rightarrow> int \<Rightarrow> overlay \<Rightarrow> bool \<times> overlay" where
  "position_window width height screen_width screen_height s =
     (if width \<le> 1 then (True, s)
      else
        (let x = (screen_width - width) div 2;
             y = screen_height - height - 150
         in (False, s\<lparr>target_y := y, effects := effects s @ [Move x y]\<rparr>)))"

subsection \<open>main.py: update_animation\<close>

fun animate_bars :: "nat list \<Rightarrow> real list \<Rightarrow> real list \<Rightarrow> exn option \<times> real list" where
  "animate_bars [] tb bs = (None, bs)"
| "animate_bars (i # is) tb bs =
     (if i \<ge> length tb \<or> i \<ge> length bs
      then (Some (IndexError ''list index out of range''), bs)
      else
        (let diff = tb ! i - bs ! i;
             b = bs ! i + diff * 0.3
         in animate_bars is tb (bs[i := max 0 (min b 1)])))"

definition update_animation :: "overlay \<Rightarrow> bool outcome \<times> overlay" where
  "update_animation s =
     (if processing_mode s then
        (let a = spinner_angle s + 0.15;
             a1 = (if a > 2 * pi then a - 2 * pi else a);
             a2 = max 0 (min a1 (2 * pi))
         in (Returned True,
             s\<lparr>spinner_angle := a2,
               effects := effects s @ [TimerAreaQueueDraw, WaveformAreaQueueDraw]\<rparr>))
      else
        (case animate_bars [0..<num_bars s] (target_bars s) (bars s) of
           (None, bs) \<Rightarrow>
             (Returned True,
              s\<lparr>bars := bs,
                effects := effects s @ [TimerAreaQueueDraw, WaveformAreaQueueDraw]\<rparr>)
         | (Some e, bs) \<Rightarrow> (Raised e, s\<lparr>bars := bs\<rparr>)))"

subsection \<open>main.py: the timer callbacks\<close>

text \<open>
  The wrappers \<open>_safe_...\<close> that GLib calls. Each returns whether its timer goes on.
  The \<open>except\<close> branch of a wrapper is modelled where the wrapped method can raise in
  this model (an \<open>IndexError\<close> of a list access); the other methods only call GTK and
  the file helpers, which are taken not to raise.
\<close>

definition safe_update_audio_levels :: "stream_event \<Rightarrow> (nat \<Rightarrow> real) \<Rightarrow> overlay
    \<Rightarrow> bool \<times> overlay" where
  "safe_update_audio_levels ev rnd s =
     (if shutting_down s then (False, s)
      else
        (case update_audio_levels ev rnd s of
           (Returned r, s') \<Rightarrow> (r, s')
         | (Raised e, s') \<Rightarrow>
             (True, s'\<lparr>errs := log_error AUDIO_INPUT
                         (''Error updating audio levels: '' @ exn_text e) (errs s')\<rparr>)))"

definition safe_update_animation :: "overlay \<Rightarrow> bool \<times> overlay" where
  "safe_update_animation s =
     (if shutting_down s then (False, s)
      else
        (case update_animation s of
           (Returned r, s') \<Rightarrow> (r, s')
         | (Raised e, s') \<Rightarrow>
             (True, s'\<lparr>errs := log_error ANIMATION
                         (''Error in animation update: '' @ exn_text e) (errs s')\<rparr>)))"

definition safe_animate_entrance :: "overlay \<Rightarrow> bool \<times> overlay" where
  "safe_animate_entrance s =
     (if shutting_down s then (False, s) else animate_entrance s)"

definition safe_check_close_signal :: "bool \<Rightarrow> overlay \<Rightarrow> bool \<times> overlay" where
  "safe_check_close_signal file_exists s =
     (if shutting_down s then (False, s) else check_close_signal file_exists s)"

definition safe_check_processing_mode :: "bool \<Rightarrow> bool \<Rightarrow> real \<Rightarrow> overlay
    \<Rightarrow> bool \<times> overlay" where
  "safe_check_processing_mode processing_file error_file now s =
     (if shutting_down s then (False, s)
      else check_processing_mode processing_file error_file now s)"

definition safe_position_window :: "int \<Rightarrow> int \<Rightarrow> int \<Rightarrow> int \<Rightarrow> overlay \<Rightarrow> bool \<times> overlay" where
  "safe_position_window width height screen_width screen_height s =
     (if shutting_down s then (False, s)
      else position_window width height screen_width screen_height s)"

text \<open>
  One event of the main loop: a timer fires, with what the outside world answers
  during the callback, or the window is destroyed.
\<close>

datatype tick =
  PositionWindow int int int int
| UpdateAnimation
| CheckProcessingMode bool bool real
| UpdateAudioLevels stream_event "nat \<Rightarrow> real"
| AnimateEntrance
| CheckCloseSignal bool
| Destroy

fun step :: "tick \<Rightarrow> overlay \<Rightarrow> overlay" where
  "step (PositionWindow w h sw sh) s = snd (safe_position_window w h sw sh s)"
| "step UpdateAnimation s = snd (safe_update_animation s)"
| "step (CheckProcessingMode pf ef now) s = snd (safe_check_processing_mode pf ef now s)"
| "step (UpdateAudioLevels ev rnd) s = snd (safe_update_audio_levels ev rnd s)"
| "step AnimateEntrance s = snd (safe_animate_entrance s)"
| "step (CheckCloseSignal f) s = snd (safe_check_close_signal f s)"
| "step Destroy s = on_destroy s"

fun run :: "tick list \<Rightarrow> overlay \<Rightarrow> overlay" where
  "run [] s = s"
| "run (t # ts) s = run ts (step t s)"

subsection \<open>renderers.py: draw_timer\<close>

text \<open>\<open>int(x)\<close> on a float truncates towards zero.\<close>

definition py_int :: "real \<Rightarrow> int" where
  "py_int x = (if x \<ge> 0 then \<lfloor>x\<rfloor> else \<lceil>x\<rceil>)"

definition digit_char :: "nat \<Rightarrow> char" where
  "digit_char d = ''0123456789'' ! d"

fun str_nat :: "nat \<Rightarrow> string" where
  "str_nat n = (if n < 10 then [digit_char n] else str_nat (n div 10) @ [digit_char (n mod 10)])"

declare str_nat.simps [simp del]

text \<open>\<open>str(i)\<close>, and the format \<open>{i:02d}\<close>: zeros between the sign and the digits up
  to width 2.\<close>

definition str_int :: "int \<Rightarrow> string" where
  "str_int i = (if i < 0 then ''-'' else []) @ str_nat (nat \<bar>i\<bar>)"

definition format_02d :: "int \<Rightarrow> string" where
  "format_02d i =
     (let sign = (if i < 0 then ''-'' else []);
          digits = str_nat (nat \<bar>i\<bar>)
      in sign @ replicate (2 - length sign - length digits) CHR ''0'' @ digits)"

text \<open>Lines 186 to 191: the elapsed whole seconds, and lines 193 to 195: the text.\<close>

definition elapsed_seconds :: "real \<Rightarrow> real \<Rightarrow> int" where
  "elapsed_seconds now start =
     (let elapsed = py_int (now - start);
          elapsed = (if elapsed < 0 then 0 else elapsed)
      in if elapsed > 86400 then 86400 else elapsed)"

definition timer_text :: "real \<Rightarrow> real \<Rightarrow> string" where
  "timer_text now start =
     (let elapsed = elapsed_seconds now start;
          minutes = elapsed div 60;
          seconds = elapsed mod 60
      in str_int minutes @ '':'' @ format_02d seconds)"

text \<open>
  The calls \<open>draw_timer\<close> makes on the Cairo context, in order. \<open>w\<close> and \<open>h\<close>
  are the widget's allocated size, \<open>now\<close> is \<open>time.time()\<close>, and \<open>extents\<close>
  gives Cairo's answer to \<open>text_extents\<close>: width, height, x bearing, y bearing.
  The function always returns \<open>False\<close>.
\<close>

datatype draw_op =
  SetSourceRGBA real real real real
| SetLineWidth real
| SetLineCap nat
| Arc real real real real real
| Stroke
| SelectFontFace string nat nat
| SetFontSize real
| MoveTo real real
| ShowText string

definition draw_timer :: "int \<Rightarrow> int \<Rightarrow> (string \<Rightarrow> real \<times> real \<times> real \<times> real) \<Rightarrow> real
    \<Rightarrow> real \<Rightarrow> bool \<Rightarrow> real \<Rightarrow> real \<Rightarrow> bool \<Rightarrow> bool \<times> draw_op list" where
  "draw_timer w h extents now animation_progress' processing_mode' spinner_angle' start_time'
      is_error =
     (if w \<le> 0 \<or> h \<le> 0 then (False, [])
      else if animation_progress' < 0.7 then (False, [])
      else
        (let content_alpha = min ((animation_progress' - 0.7) / 0.3) 1;
             content_alpha = max 0 (min 1 content_alpha);
             ops = [SetSourceRGBA 1 1 1 content_alpha]
         in if is_error then (False, ops)
            else if processing_mode' then
              (let center_x = real_of_int w / 2;
                   center_y = real_of_int h / 2;
                   radius = (8::real);
                   radius = (if radius \<le> 0 \<or> radius > real_of_int (min w h) / 2
                             then real_of_int (min w h) / 4 else radius);
                   start_angle = spinner_angle';
                   end_angle = start_angle + pi * 1.5
               in (False, ops @ [SetLineWidth 2, SetLineCap 1,
                                 Arc center_x center_y radius start_angle end_angle, Stroke]))
            else
              (let text = timer_text now start_time';
                   (ew, eh, x_bearing, y_bearing) = extents text;
                   x = (real_of_int w - ew) / 2 - x_bearing;
                   y = (real_of_int h - eh) / 2 - y_bearing
               in (False, ops @ [SelectFontFace ''monospace'' 0 1, SetFontSize 12,
                                 MoveTo x y, ShowText text]))))"

text \<open>\<open>on_draw_timer\<close> passes the overlay's fields.\<close>

definition on_draw_timer :: "int \<Rightarrow> int \<Rightarrow> (string \<Rightarrow> real \<times> real \<times> real \<times> real) \<Rightarrow> real
    \<Rightarrow> overlay \<Rightarrow> bool \<times> draw_op list" where
  "on_draw_timer w h extents now s =
     draw_timer w h extents now (animation_progress s) (processing_mode s) (spinner_angle s)
       (start_time s) (is_offline s)"

text \<open>The texts a run of draw calls shows.\<close>

fun shown_texts :: "draw_op list \<Rightarrow> string list" where
  "shown_texts [] = []"
| "shown_texts (ShowText t # ops) = t # shown_texts ops"
| "shown_texts (_ # ops) = shown_texts ops"

subsection \<open>Concrete states and call sequences\<close>

text \<open>The audio input after a successful \<open>setup\<close>.\<close>

definition ai_ok :: audio_input where
  "ai_ok = fst (snd (audio_setup SetupOk audio_input_init error_state_init))"

text \<open>Successive \<open>get_level\<close> calls, one stream answer each: the levels returned, the
  final states and the stream calls of each call.\<close>

fun get_levels :: "stream_event list \<Rightarrow> audio_input \<Rightarrow> error_state
    \<Rightarrow> real list \<times> audio_input \<times> error_state \<times> effect list list" where
  "get_levels [] ai es = ([], ai, es, [])"
| "get_levels (ev # evs) ai es =
     (let (level, ai', es', fx) = get_level ev ai es;
          (levels, ai'', es'', fxs) = get_levels evs ai' es'
      in (level # levels, ai'', es'', fx # fxs))"

text \<open>A stream answer that makes \<open>get_level\<close> count a failure: the stream is
  inactive, a call raises, or the bytes read cannot be unpacked (an odd number of at
  least three bytes).\<close>

definition read_fails :: "stream_event \<Rightarrow> bool" where
  "read_fails ev =
     (case ev of
        IsActiveRaises e \<Rightarrow> True
      | Inactive \<Rightarrow> True
      | ReadRaises e \<Rightarrow> True
      | ReadData data \<Rightarrow> 2 \<le> length data \<and> odd (length data))"

text \<open>An audio input that a call can reach the stream with.\<close>

definition usable :: "audio_input \<Rightarrow> bool" where
  "usable ai \<longleftrightarrow> stream ai \<and> \<not> setup_failed ai \<and> \<not> ai_processing_mode ai"

text \<open>
  The entrance timer as GLib runs it: the callback is called again as long as it
  returned \<open>True\<close>, here for at most \<open>n\<close> calls. The result says whether the timer
  is still installed.
\<close>

fun morph_run :: "nat \<Rightarrow> overlay \<Rightarrow> bool \<times> overlay" where
  "morph_run 0 s = (True, s)"
| "morph_run (Suc n) s =
     (case safe_animate_entrance s of
        (True, s') \<Rightarrow> morph_run n s'
      | (False, s') \<Rightarrow> (False, s'))"

text \<open>The teardown calls in an effect log: \<open>audio_input.cleanup\<close> and \<open>Gtk.main_quit\<close>.\<close>

fun teardown_calls :: "effect list \<Rightarrow> effect list" where
  "teardown_calls [] = []"
| "teardown_calls (AudioCleanup # fx) = AudioCleanup # teardown_calls fx"
| "teardown_calls (MainQuit # fx) = MainQuit # teardown_calls fx"
| "teardown_calls (_ # fx) = teardown_calls fx"

text \<open>Two closing states: a few ticks from the end, and at the last tick.\<close>

definition closing_example :: overlay where
  "closing_example = (overlay_init 0 SetupOk)\<lparr>is_closing := True, animation_progress := 0.1\<rparr>"

definition closing_last :: overlay where
  "closing_last = (overlay_init 0 SetupOk)\<lparr>is_closing := True, animation_progress := 0.04\<rparr>"

text \<open>
  The shape of the three lists, as \<open>__init__\<close> sets it up, and the ranges of the float
  fields that do not depend on the level read: the unit interval for the bars, the
  targets and the morph progress, and the half-open turn for the spinner angle.
\<close>

definition shape_ok :: "overlay \<Rightarrow> bool" where
  "shape_ok s \<longleftrightarrow>
     num_bars s = 16 \<and> length (bars s) = 16 \<and> length (target_bars s) = 16
     \<and> length (audio_levels s) = 16"

definition in_unit :: "real \<Rightarrow> bool" where
  "in_unit x \<longleftrightarrow> 0 \<le> x \<and> x \<le> 1"

definition ranges_ok :: "overlay \<Rightarrow> bool" where
  "ranges_ok s \<longleftrightarrow>
     list_all in_unit (bars s) \<and> list_all in_unit (target_bars s)
     \<and> in_unit (animation_progress s)
     \<and> 0 \<le> spinner_angle s \<and> spinner_angle s < 2 * pi"

text \<open>The initial state with every bar target at full height.\<close>

definition full_targets :: overlay where
  "full_targets = (overlay_init 0 SetupOk)\<lparr>target_bars := replicate 16 1\<rparr>"

text \<open>The state after the processing signal was seen at time 5, and the draw 0.5 for
  every bar, which makes every jitter factor 1.\<close>

definition processing_example :: overlay where
  "processing_example = snd (check_processing_mode True False 5 (overlay_init 0 SetupOk))"

definition mid_draw :: "nat \<Rightarrow> real" where
  "mid_draw i = 0.5"

text \<open>
  The state after one audio tick that read a single sample of 3000 (level 1, so the
  first target bar is 1 while the bar itself is still 0.1) and the processing signal.
\<close>

definition loud_processing :: overlay where
  "loud_processing =
     run [UpdateAudioLevels (ReadData [0xB8, 0x0B]) mid_draw, CheckProcessingMode True False 5]
       (overlay_init 0 SetupOk)"

subsection \<open>A level sampler that returns any number\<close>

text \<open>
  \<open>update_audio_levels\<close> with the number \<open>level\<close> in place of what the call
  \<open>self.audio_input.get_level()\<close> returns, and its wrapper: the audio tick with
  another level sampler plugged in. The sampler's own state is left out.
\<close>

definition update_audio_levels_given :: "real \<Rightarrow> (nat \<Rightarrow> real) \<Rightarrow> overlay
    \<Rightarrow> bool outcome \<times> overlay" where
  "update_audio_levels_given level rnd s =
     (if processing_mode s then (Returned True, s) else apply_level level rnd s)"

definition safe_update_audio_levels_given :: "real \<Rightarrow> (nat \<Rightarrow> real) \<Rightarrow> overlay
    \<Rightarrow> bool \<times> overlay" where
  "safe_update_audio_levels_given level rnd s =
     (if shutting_down s then (False, s)
      else
        (case update_audio_levels_given level rnd s of
           (Returned r, s') \<Rightarrow> (r, s')
         | (Raised e, s') \<Rightarrow>
             (True, s'\<lparr>errs := log_error AUDIO_INPUT
                         (''Error updating audio levels: '' @ exn_text e) (errs s')\<rparr>)))"

text \<open>A tick of the program, or an audio tick whose sampler returned the given level.\<close>

datatype sampled_tick = Tick tick | SampledLevel real "nat \<Rightarrow> real"

fun sampled_step :: "sampled_tick \<Rightarrow> overlay \<Rightarrow> overlay" where
  "sampled_step (Tick t) s = step t s"
| "sampled_step (SampledLevel level rnd) s = snd (safe_update_audio_levels_given level rnd s)"

fun sampled_run :: "sampled_tick list \<Rightarrow> overlay \<Rightarrow> overlay" where
  "sampled_run [] s = s"
| "sampled_run (t # ts) s = sampled_run ts (sampled_step t s)"

text \<open>The level of a tick lies in \<open>[0, 1]\<close>: a tick of the program always does, since
  \<open>get_level\<close> returns such a value.\<close>

fun unit_level :: "sampled_tick \<Rightarrow> bool" where
  "unit_level (Tick t) = True"
| "unit_level (SampledLevel level rnd) = (0 \<le> level \<and> level \<le> 1)"

subsection \<open>An auxiliary family of polynomials\<close>

text \<open>
  \<open>niven_d a b n j\<close> is the \<open>j\<close>-th derivative of \<open>x ^ n * (a - b * x) ^ n / n!\<close>,
  written as a recursion. It serves the proof that \<open>pi\<close> is irrational, which the
  half-open range of the spinner angle rests on.
\<close>

fun niven_d :: "real \<Rightarrow> real \<Rightarrow> nat \<Rightarrow> nat \<Rightarrow> real \<Rightarrow> real" where
  "niven_d a b n 0 x = x ^ n * (a - b * x) ^ n / fact n"
| "niven_d a b 0 (Suc j) x = 0"
| "niven_d a b (Suc n) (Suc j) x =
     (a - 2 * b * x) * niven_d a b n j x - 2 * b * real j * niven_d a b n (j - 1) x"

section \<open>Properties\<close>

subsection \<open>The recording timer\<close>

lemma py_int_clamp:
  "(let e = py_int x; e = (if e < 0 then 0 else e) in if e > 86400 then 86400 else e)
     = \<lfloor>max 0 (min 86400 x)\<rfloor>"
proof (cases "x < 0")
  case True
  then have "\<lceil>x\<rceil> \<le> 0" by (simp add: ceiling_le_iff)
  define c where "c = \<lceil>x\<rceil>"
  with \<open>\<lceil>x\<rceil> \<le> 0\<close> have "c \<le> 0" by simp
  then have "(let e = c; e = (if e < 0 then 0 else e) in if e > 86400 then 86400 else e) = 0"
    by (simp add: Let_def)
  moreover have "py_int x = c" using True by (simp add: py_int_def c_def)
  moreover have "\<lfloor>max 0 (min 86400 x)\<rfloor> = 0" using True by (simp add: max_def min_def)
  ultimately show ?thesis by simp
next
  case False
  then have nn: "0 \<le> x" by simp
  show ?thesis
  proof (cases "x \<le> 86400")
    case True
    then have "\<lfloor>x\<rfloor> \<le> 86400" by (simp add: floor_le_iff)
    moreover have "0 \<le> \<lfloor>x\<rfloor>" using nn by simp
    ultimately show ?thesis using nn True by (simp add: py_int_def Let_def max_def min_def)
  next
    case False
    then have "86400 < x" by simp
    then have "86400 \<le> \<lfloor>x\<rfloor>" by (simp add: le_floor_iff)
    define c where "c = \<lfloor>x\<rfloor>"
    with \<open>86400 \<le> \<lfloor>x\<rfloor>\<close> have "86400 \<le> c" by simp
    then have "(let e = c; e = (if e < 0 then 0 else e) in if e > 86400 then 86400 else e) = 86400"
      by (simp add: Let_def)
    moreover have "py_int x = c" using nn by (simp add: py_int_def c_def)
    moreover have "\<lfloor>max 0 (min 86400 x)\<rfloor> = 86400"
      using \<open>86400 < x\<close> by (simp add: max_def min_def)
    ultimately show ?thesis by simp
  qed
qed

lemma elapsed_seconds_floor:
  "elapsed_seconds now st = \<lfloor>max 0 (min 86400 (now - st))\<rfloor>"
  unfolding elapsed_seconds_def by (rule py_int_clamp)

lemma str_nat_lt10: "n < 10 \<Longrightarrow> str_nat n = [digit_char n]"
  by (subst str_nat.simps) simp

lemma str_nat_two: "10 \<le> n \<Longrightarrow> n < 100 \<Longrightarrow> str_nat n = [digit_char (n div 10), digit_char (n mod 10)]"
  by (subst str_nat.simps) (simp add: str_nat_lt10)

lemma digit_char_0: "digit_char 0 = CHR ''0''"
  by (simp add: digit_char_def)

lemma format_02d_two:
  assumes "0 \<le> m" "m < 60"
  shows "format_02d m = [digit_char (nat m div 10), digit_char (nat m mod 10)]"
proof (cases "nat m < 10")
  case True
  then show ?thesis using assms by (simp add: format_02d_def str_nat_lt10 Let_def digit_char_0)
next
  case False
  then have "10 \<le> nat m" "nat m < 100" using assms by auto
  then show ?thesis using assms by (simp add: format_02d_def str_nat_two Let_def)
qed

text \<open>
  Claim C9. While recording (not processing, not offline, the timer area visible), the
  elapsed time is the whole seconds of \<open>now - start_time\<close> floored at 0 and capped
  at 86400; the text drawn is the minutes, a colon and the seconds as exactly two
  digits; with \<open>start_time = now - 125\<close> the text is \<open>2:05\<close>.
\<close>

theorem timer_text_recording:
  assumes "\<not> processing_mode s" and "\<not> is_offline s" and "0 < w" and "0 < h"
    and "0.7 \<le> animation_progress s"
  shows "elapsed_seconds now (start_time s) = \<lfloor>max 0 (min 86400 (now - start_time s))\<rfloor>
    \<and> shown_texts (snd (on_draw_timer w h ext now s))
        = [str_int (elapsed_seconds now (start_time s) div 60) @ '':''
            @ format_02d (elapsed_seconds now (start_time s) mod 60)]
    \<and> format_02d (elapsed_seconds now (start_time s) mod 60)
        = [digit_char (nat (elapsed_seconds now (start_time s) mod 60) div 10),
           digit_char (nat (elapsed_seconds now (start_time s) mod 60) mod 10)]
    \<and> (start_time s = now - 125 \<longrightarrow>
          shown_texts (snd (on_draw_timer w h ext now s)) = [''2:05''])"
proof -
  have shown: "shown_texts (snd (on_draw_timer w h ext now s)) = [timer_text now (start_time s)]"
    using assms
    by (simp add: on_draw_timer_def draw_timer_def Let_def split: prod.splits)
  have t125: "timer_text now (now - 125) = ''2:05''"
    by (simp add: timer_text_def elapsed_seconds_def py_int_def str_int_def format_02d_def
        str_nat.simps digit_char_def)
  have two: "format_02d (elapsed_seconds now (start_time s) mod 60)
        = [digit_char (nat (elapsed_seconds now (start_time s) mod 60) div 10),
           digit_char (nat (elapsed_seconds now (start_time s) mod 60) mod 10)]"
    by (rule format_02d_two) simp_all
  have text_eq: "timer_text now (start_time s) = str_int (elapsed_seconds now (start_time s) div 60) @ '':''
            @ format_02d (elapsed_seconds now (start_time s) mod 60)"
    by (simp add: timer_text_def Let_def)
  show ?thesis
    using shown t125 two text_eq elapsed_seconds_floor [of now "start_time s"]
    by auto
qed

theorem timer_text_recording_witness:
  "shown_texts (snd (on_draw_timer 40 24 (\<lambda>_. (0, 0, 0, 0)) 1000
      ((overlay_init 875 SetupOk)\<lparr>animation_progress := 1\<rparr>))) = [''2:05'']
   \<and> elapsed_seconds 1000 875 = 125"
proof -
  let ?s = "(overlay_init 875 SetupOk)\<lparr>animation_progress := 1\<rparr>"
  have a: "\<not> processing_mode ?s" "\<not> is_offline ?s" "0.7 \<le> animation_progress ?s"
    "start_time ?s = 1000 - 125"
    by (simp_all add: overlay_init_def audio_setup_def Let_def)
  have w: "(0::int) < 40" "(0::int) < 24" by simp_all
  from timer_text_recording [OF a(1) a(2) w a(3), of 1000 "\<lambda>_. (0, 0, 0, 0)"] a(4)
  show ?thesis
    by (simp add: elapsed_seconds_def py_int_def str_int_def format_02d_def
        str_nat.simps digit_char_def)
qed

subsection \<open>The range of get_level\<close>

lemma ai_ok_eq:
  "ai_ok = \<lparr>audio = True, stream = True, ai_processing_mode = False, setup_failed = False,
     read_errors = 0\<rparr>"
  by (simp add: ai_ok_def audio_setup_def audio_input_init_def)

lemma sum_squares_nonneg: "0 \<le> sum_list (map (\<lambda>s. s ^ 2) (shorts :: int list))"
  by (induction shorts) auto

lemma get_level_try_range:
  assumes "get_level_try ev ai = Inr (level, ai', fx)"
  shows "0 \<le> level \<and> level \<le> 1"
proof (cases ev)
  case (ReadData data)
  show ?thesis
  proof (cases "length data div 2 = 0")
    case True
    with assms ReadData show ?thesis by (simp add: get_level_try_def)
  next
    case False
    with assms ReadData obtain shorts where
      lv: "level = min (sqrt (real_of_int (sum_list (map (\<lambda>s. s ^ 2) shorts))
                  / real (length data div 2)) / 3000) 1"
      by (auto simp: get_level_try_def Let_def split: sum.splits)
    have "0 \<le> real_of_int (sum_list (map (\<lambda>s. s ^ 2) shorts)) / real (length data div 2)"
      using sum_squares_nonneg [of shorts] by simp
    then have "0 \<le> sqrt (real_of_int (sum_list (map (\<lambda>s. s ^ 2) shorts))
                  / real (length data div 2)) / 3000"
      by simp
    with lv show ?thesis by simp
  qed
qed (use assms in \<open>auto simp: get_level_try_def\<close>)

lemma get_level_try_raises:
  "get_level_try (IsActiveRaises e) ai = Inl (e, [StreamIsActive])"
  "get_level_try (ReadRaises e) ai = Inl (e, [StreamIsActive, StreamRead])"
  by (simp_all add: get_level_try_def)

lemma get_level_caught:
  assumes "get_level_try ev ai = Inl r"
  shows "fst (get_level ev ai es) = 0"
  using assms by (cases r) (simp add: get_level_def split: exn.splits)

text \<open>
  Claim C8. \<open>get_level\<close> is total: every exception the \<open>try\<close> block raises is
  caught. The level it returns lies in \<open>[0, 1]\<close>, and it is exactly 0 when setup
  failed, in processing mode, without a stream, with the circuit breaker open, when the
  stream is inactive, and whenever \<open>is_active\<close>, \<open>read\<close> or \<open>struct.unpack\<close>
  raises.
\<close>

theorem get_level_total_in_range:
  "0 \<le> fst (get_level ev ai es) \<and> fst (get_level ev ai es) \<le> 1
   \<and> (setup_failed ai \<or> ai_processing_mode ai \<or> \<not> stream ai
        \<or> read_errors ai \<ge> max_read_errors \<or> ev = Inactive
        \<or> (\<exists>e. ev = IsActiveRaises e) \<or> (\<exists>e. ev = ReadRaises e)
        \<or> (\<exists>r. get_level_try ev ai = Inl r)
       \<longrightarrow> fst (get_level ev ai es) = 0)"
proof -
  have range: "0 \<le> fst (get_level ev ai es) \<and> fst (get_level ev ai es) \<le> 1"
  proof (cases "get_level_try ev ai")
    case (Inl r)
    then show ?thesis by (simp add: get_level_caught)
  next
    case (Inr r)
    obtain level ai' fx where r: "r = (level, ai', fx)" by (cases r)
    with Inr get_level_try_range [of ev ai level ai' fx] show ?thesis
      by (simp add: get_level_def)
  qed
  have inactive: "fst (get_level Inactive ai es) = 0"
    by (simp add: get_level_def get_level_try_def)
  have short: "setup_failed ai \<or> ai_processing_mode ai \<or> \<not> stream ai
        \<or> read_errors ai \<ge> max_read_errors \<Longrightarrow> fst (get_level ev ai es) = 0"
    by (auto simp: get_level_def)
  show ?thesis
    using range inactive short get_level_caught [of ev ai _ es] get_level_try_raises
    by blast
qed

theorem get_level_total_in_range_witness:
  "fst (get_level (ReadRaises (OtherException ''device lost'')) ai_ok error_state_init) = 0
   \<and> fst (get_level (ReadData [0xB8, 0x0B, 0xB8, 0x0B, 0x00]) ai_ok error_state_init) = 0"
proof -
  have a: "\<exists>e. ReadRaises (OtherException ''device lost'') = ReadRaises e" by blast
  have b: "\<exists>r. get_level_try (ReadData [0xB8, 0x0B, 0xB8, 0x0B, 0x00]) ai_ok = Inl r"
    by (simp add: get_level_try_def struct_unpack_def)
  from a b get_level_total_in_range [of "ReadRaises (OtherException ''device lost'')" ai_ok error_state_init]
    get_level_total_in_range [of "ReadData [0xB8, 0x0B, 0xB8, 0x0B, 0x00]" ai_ok error_state_init]
  show ?thesis by blast
qed

text \<open>A read that succeeds: two samples of magnitude 1500 give the level 0.5.\<close>

lemma get_level_example:
  "fst (get_level (ReadData [0xDC, 0x05, 0x24, 0xFA]) ai_ok error_state_init) = 1 / 2"
proof -
  have s: "le_shorts [0xDC, 0x05, 0x24, 0xFA] = [1500, -1500]" by (simp add: word_cat_eq)
  have q: "sqrt (2250000 :: real) = 1500"
    using real_sqrt_abs [of 1500] by simp
  show ?thesis
    by (simp add: get_level_def get_level_try_def struct_unpack_def ai_ok_def audio_setup_def
        audio_input_init_def max_read_errors_def word_cat_eq q Let_def)
qed

subsection \<open>The read-error counter of get_level\<close>

lemma get_level_Inactive:
  "stream ai \<Longrightarrow> \<not> setup_failed ai \<Longrightarrow> \<not> ai_processing_mode ai \<Longrightarrow> read_errors ai < 10 \<Longrightarrow>
   get_level Inactive ai es
     = (0, ai\<lparr>read_errors := read_errors ai + 1\<rparr>, es, [StreamIsActive])"
  by (simp add: get_level_def get_level_try_def max_read_errors_def)

lemma get_level_silence:
  "stream ai \<Longrightarrow> \<not> setup_failed ai \<Longrightarrow> \<not> ai_processing_mode ai \<Longrightarrow> read_errors ai < 10 \<Longrightarrow>
   get_level (ReadData [0x00, 0x00]) ai es
     = (0, (if read_errors ai > 0 then ai\<lparr>read_errors := max 0 (read_errors ai - 1)\<rparr> else ai),
        es, [StreamIsActive, StreamRead])"
  by (simp add: get_level_def get_level_try_def max_read_errors_def struct_unpack_def
      word_cat_eq Let_def)

text \<open>With the breaker open the call returns 0, makes no stream call, leaves the
  counter alone and leaves the degraded flag set.\<close>

lemma get_level_open:
  "stream ai \<Longrightarrow> \<not> setup_failed ai \<Longrightarrow> \<not> ai_processing_mode ai \<Longrightarrow> read_errors ai \<ge> 10 \<Longrightarrow>
   get_level ev ai es = (0, ai, es\<lparr>audio_degraded := True\<rparr>, [])"
  by (cases "audio_degraded es") (simp_all add: get_level_def max_read_errors_def)

lemma get_level_failure:
  assumes "usable ai" and "read_errors ai < 10" and "read_fails ev"
  shows "fst (get_level ev ai es) = 0"
    and "read_errors (fst (snd (get_level ev ai es))) = read_errors ai + 1"
    and "usable (fst (snd (get_level ev ai es)))"
proof -
  have "fst (get_level ev ai es) = 0
    \<and> read_errors (fst (snd (get_level ev ai es))) = read_errors ai + 1
    \<and> usable (fst (snd (get_level ev ai es)))"
  proof (cases ev)
    case (ReadData data)
    with assms(3) have d: "2 \<le> length data" "odd (length data)" by (simp_all add: read_fails_def)
    then have "length data div 2 \<noteq> 0" "length data \<noteq> 2 * (length data div 2)" by presburger+
    then show ?thesis
      using assms(1,2) ReadData
      by (simp add: get_level_def get_level_try_def struct_unpack_def usable_def
          max_read_errors_def Let_def)
  qed (use assms(1,2) in \<open>auto simp: get_level_def get_level_try_def usable_def
          max_read_errors_def split: exn.splits\<close>)
  then show "fst (get_level ev ai es) = 0"
    and "read_errors (fst (snd (get_level ev ai es))) = read_errors ai + 1"
    and "usable (fst (snd (get_level ev ai es)))" by blast+
qed

lemma get_level_open_state:
  assumes "usable ai" and "read_errors ai \<ge> 10"
  shows "get_level ev ai es = (0, ai, es\<lparr>audio_degraded := True\<rparr>, [])"
  using assms get_level_open [of ai ev es] by (simp add: usable_def)

text \<open>
  Failures add one each, so after \<open>n\<close> failures in a row the counter is at least
  \<open>min 10 n\<close>; from 10 on every call returns 0 without a stream call and leaves the
  degraded flag set.
\<close>

lemma failures_accumulate:
  assumes "usable ai" and "0 \<le> read_errors ai" and "list_all read_fails evs"
  shows "usable (fst (snd (get_levels evs ai es)))
    \<and> min 10 (read_errors ai + int (length evs)) \<le> read_errors (fst (snd (get_levels evs ai es)))
    \<and> list_all (\<lambda>l. l = 0) (fst (get_levels evs ai es))"
  using assms
proof (induction evs arbitrary: ai es)
  case Nil
  then show ?case by simp
next
  case (Cons ev evs)
  obtain level ai' es' fx where g: "get_level ev ai es = (level, ai', es', fx)"
    by (cases "get_level ev ai es") auto
  have step: "level = 0 \<and> usable ai' \<and> min 10 (read_errors ai + 1) \<le> read_errors ai'"
  proof (cases "read_errors ai < 10")
    case True
    from Cons.prems(3) have "read_fails ev" by simp
    from get_level_failure [OF Cons.prems(1) True this, of es] g show ?thesis by simp
  next
    case False
    then have "read_errors ai \<ge> 10" by simp
    from get_level_open_state [OF Cons.prems(1) this, of ev es] g Cons.prems(1) this
    show ?thesis by simp
  qed
  then have nn: "0 \<le> read_errors ai'" using Cons.prems(2) by linarith
  from Cons.prems(3) have rest: "list_all read_fails evs" by simp
  note ih = Cons.IH [OF conjunct1 [OF conjunct2 [OF step]] nn rest, of es']
  obtain levels ai'' es'' fxs where r: "get_levels evs ai' es' = (levels, ai'', es'', fxs)"
    by (cases "get_levels evs ai' es'") auto
  have "min 10 (read_errors ai + int (length (ev # evs))) \<le> read_errors ai''"
    using ih r step by (simp add: min_def split: if_splits)
  then show ?case using ih r step g by simp
qed

lemma ten_failures_open_breaker:
  assumes "usable ai" and "0 \<le> read_errors ai" and "list_all read_fails evs"
    and "length evs = 10"
  shows "get_level ev (fst (snd (get_levels evs ai es))) es'
    = (0, fst (snd (get_levels evs ai es)), es'\<lparr>audio_degraded := True\<rparr>, [])"
proof -
  from failures_accumulate [OF assms(1-3), of es] assms(2,4)
  have "usable (fst (snd (get_levels evs ai es)))"
    and "10 \<le> read_errors (fst (snd (get_levels evs ai es)))"
    by (simp_all add: min_def split: if_splits)
  then show ?thesis by (rule get_level_open_state)
qed

text \<open>
  Claim C7, at the failing input. After three failed reads a successful read leaves the
  counter at 2, not at 0: the success takes one off. Eight more failures then open the
  breaker, so the next call makes no stream call, although no ten failures in a row
  ever happened.
\<close>

theorem success_decrements_read_errors:
  "read_errors (fst (snd (get_levels [Inactive, Inactive, Inactive, ReadData [0x00, 0x00]]
      ai_ok error_state_init))) = 2
   \<and> get_levels [Inactive, Inactive, Inactive, ReadData [0x00, 0x00],
        Inactive, Inactive, Inactive, Inactive, Inactive, Inactive, Inactive, Inactive,
        ReadData [0x00, 0x00]] ai_ok error_state_init
      = ([0, 0, 0, 0, 0, 0, 0, 0, 0, 0, 0, 0, 0],
         ai_ok\<lparr>read_errors := 10\<rparr>, error_state_init\<lparr>audio_degraded := True\<rparr>,
         [[StreamIsActive], [StreamIsActive], [StreamIsActive], [StreamIsActive, StreamRead],
          [StreamIsActive], [StreamIsActive], [StreamIsActive], [StreamIsActive],
          [StreamIsActive], [StreamIsActive], [StreamIsActive], [StreamIsActive], []])"
  by (simp add: ai_ok_eq get_level_Inactive get_level_silence get_level_open)

subsection \<open>The entrance morph\<close>

lemma animate_entrance_opening:
  assumes "\<not> is_closing s"
  shows "animation_progress (snd (animate_entrance s))
           = (if animation_progress s < 1 then min 1 (animation_progress s + 0.04)
              else animation_progress s)"
    and "fst (animate_entrance s)"
    and "\<not> is_closing (snd (animate_entrance s))"
    and "shutting_down (snd (animate_entrance s)) = shutting_down s"
  using assms by (auto simp: animate_entrance_def Let_def min_def)

lemma step_keeps_progress:
  assumes "t \<noteq> AnimateEntrance"
  shows "animation_progress (step t s) = animation_progress s"
  using assms
  by (cases t)
    (auto simp: safe_position_window_def position_window_def safe_update_animation_def
      update_animation_def safe_check_processing_mode_def check_processing_mode_def
      safe_update_audio_levels_def update_audio_levels_def apply_level_def
      safe_check_close_signal_def check_close_signal_def on_destroy_def safe_cleanup_def
      Let_def split: prod.splits outcome.splits option.splits list.splits)

lemma init_fields:
  "animation_progress (overlay_init now ev) = 0"
  "\<not> is_closing (overlay_init now ev)"
  "\<not> shutting_down (overlay_init now ev)"
  "\<not> processing_mode (overlay_init now ev)"
  by (simp_all add: overlay_init_def Let_def split: prod.splits)

lemma run_append: "run (ts @ us) s = run us (run ts s)"
  by (induction ts arbitrary: s) auto

lemma run_entrance_from_init:
  "animation_progress (run (replicate n AnimateEntrance) (overlay_init now ev)) = min 1 (0.04 * real n)
   \<and> \<not> is_closing (run (replicate n AnimateEntrance) (overlay_init now ev))
   \<and> \<not> shutting_down (run (replicate n AnimateEntrance) (overlay_init now ev))"
proof (induction n)
  case 0
  then show ?case by (simp add: init_fields)
next
  case (Suc n)
  let ?s = "run (replicate n AnimateEntrance) (overlay_init now ev)"
  have r: "run (replicate (Suc n) AnimateEntrance) (overlay_init now ev) = step AnimateEntrance ?s"
    using run_append [of "replicate n AnimateEntrance" "[AnimateEntrance]"]
    by (simp add: replicate_append_same)
  have st: "step AnimateEntrance ?s = snd (animate_entrance ?s)"
    using Suc by (simp add: safe_animate_entrance_def)
  from Suc have nc: "\<not> is_closing ?s" and p: "animation_progress ?s = min 1 (0.04 * real n)" by auto
  show ?case
    unfolding r st
    using animate_entrance_opening [OF nc] p Suc
    by (auto simp: min_def algebra_simps)
qed

lemma step_keeps_closing: "is_closing s \<Longrightarrow> is_closing (step t s)"
  by (cases t)
    (auto simp: safe_position_window_def position_window_def safe_update_animation_def
      update_animation_def safe_check_processing_mode_def check_processing_mode_def
      safe_update_audio_levels_def update_audio_levels_def apply_level_def
      safe_check_close_signal_def check_close_signal_def on_destroy_def safe_cleanup_def
      safe_animate_entrance_def animate_entrance_def
      Let_def split: prod.splits outcome.splits option.splits list.splits)

lemma grid_step:
  assumes "\<exists>k\<le>25. animation_progress s = 0.04 * real (k::nat)" and "\<not> is_closing s"
  shows "\<exists>k\<le>25. animation_progress (snd (animate_entrance s)) = 0.04 * real (k::nat)"
proof -
  from assms(1) obtain k :: nat where k: "k \<le> 25" "animation_progress s = 0.04 * real k" by blast
  show ?thesis
  proof (cases "k = 25")
    case True
    then have "animation_progress s = 1" using k by simp
    then have "animation_progress (snd (animate_entrance s)) = 0.04 * real (25::nat)"
      using animate_entrance_opening(1) [OF assms(2)] by simp
    then show ?thesis by blast
  next
    case False
    then have lt: "k < 25" using k by simp
    then have "real k \<le> 24" by simp
    then have "animation_progress s + 0.04 \<le> 1" "animation_progress s < 1" using k(2) by simp_all
    then have "animation_progress (snd (animate_entrance s)) = animation_progress s + 0.04"
      using animate_entrance_opening(1) [OF assms(2)] by (simp add: min_def)
    then have "animation_progress (snd (animate_entrance s)) = 0.04 * real (Suc k)"
      using k(2) by (simp add: distrib_left)
    moreover have "Suc k \<le> 25" using lt by simp
    ultimately show ?thesis by blast
  qed
qed

lemma grid_run:
  assumes "is_closing s \<or> (\<exists>k\<le>25. animation_progress s = 0.04 * real (k::nat))"
  shows "is_closing (run ts s) \<or> (\<exists>k\<le>25. animation_progress (run ts s) = 0.04 * real (k::nat))"
  using assms
proof (induction ts arbitrary: s)
  case Nil
  then show ?case by simp
next
  case (Cons t ts)
  have "is_closing (step t s) \<or> (\<exists>k\<le>25. animation_progress (step t s) = 0.04 * real (k::nat))"
  proof (cases "is_closing s")
    case True
    then show ?thesis by (simp add: step_keeps_closing)
  next
    case False
    with Cons.prems have g: "\<exists>k\<le>25. animation_progress s = 0.04 * real (k::nat)" by blast
    show ?thesis
    proof (cases "t = AnimateEntrance")
      case True
      show ?thesis
      proof (cases "shutting_down s")
        case True
        with \<open>t = AnimateEntrance\<close> g show ?thesis by (simp add: safe_animate_entrance_def)
      next
        case nsd: False
        with True grid_step [OF g False] show ?thesis by (simp add: safe_animate_entrance_def)
      qed
    next
      case False
      with g show ?thesis by (simp add: step_keeps_progress)
    qed
  qed
  from Cons.IH [OF this] show ?case by simp
qed

lemma opening_adds_step:
  assumes "\<not> is_closing (run ts (overlay_init now ev))"
    and "animation_progress (run ts (overlay_init now ev)) < 1"
  shows "animation_progress (snd (animate_entrance (run ts (overlay_init now ev))))
    = animation_progress (run ts (overlay_init now ev)) + 0.04"
proof -
  let ?s = "run ts (overlay_init now ev)"
  have "\<exists>k\<le>25. animation_progress (overlay_init now ev) = 0.04 * real (k::nat)"
    by (rule exI [of _ 0]) (simp add: init_fields)
  from grid_run [of "overlay_init now ev" ts] this assms(1)
  obtain k :: nat where k: "k \<le> 25" "animation_progress ?s = 0.04 * real k" by blast
  with assms(2) have "k < 25" by (cases "k = 25") auto
  then have "real k \<le> 24" by simp
  then have "animation_progress ?s + 0.04 \<le> 1" using k(2) by simp
  then show ?thesis
    using animate_entrance_opening(1) [OF assms(1)] assms(2) by (simp add: min_def)
qed

text \<open>
  Claim C4. Without a closing request no tick lowers \<open>animation_progress\<close>. A morph
  tick adds 0.04 while the sum stays within 1, sets the value to 1 when the sum would
  pass 1, and leaves 1 at 1. From the initial state the value after \<open>n\<close> morph ticks
  is \<open>min 1 (0.04 * n)\<close>; and in every state reached from the initial state by any
  ticks, not closing and below 1, a morph tick adds exactly 0.04.
\<close>

theorem entrance_progress_monotone:
  assumes "\<not> is_closing s"
  shows "animation_progress s \<le> animation_progress (step t s)
    \<and> (animation_progress s + 0.04 \<le> 1 \<longrightarrow>
          animation_progress (snd (animate_entrance s)) = animation_progress s + 0.04)
    \<and> (animation_progress s < 1 \<and> 1 < animation_progress s + 0.04 \<longrightarrow>
          animation_progress (snd (animate_entrance s)) = 1)
    \<and> (animation_progress s = 1 \<longrightarrow> animation_progress (snd (animate_entrance s)) = 1)
    \<and> animation_progress (run (replicate n AnimateEntrance) (overlay_init now ev))
        = min 1 (0.04 * real n)
    \<and> (\<not> is_closing (run ts (overlay_init now ev))
          \<and> animation_progress (run ts (overlay_init now ev)) < 1 \<longrightarrow>
        animation_progress (snd (animate_entrance (run ts (overlay_init now ev))))
          = animation_progress (run ts (overlay_init now ev)) + 0.04)"
proof -
  have mono: "animation_progress s \<le> animation_progress (step t s)"
  proof (cases "t = AnimateEntrance")
    case True
    then show ?thesis
      using animate_entrance_opening(1) [OF assms]
      by (auto simp: safe_animate_entrance_def min_def)
  next
    case False
    then show ?thesis by (simp add: step_keeps_progress)
  qed
  show ?thesis
    using mono animate_entrance_opening(1) [OF assms] run_entrance_from_init [of n now ev]
      opening_adds_step [of ts now ev]
    by (auto simp: min_def)
qed

theorem entrance_progress_monotone_witness:
  "animation_progress (step AnimateEntrance (overlay_init 0 SetupOk)) = 0.04
   \<and> animation_progress (run (replicate 25 AnimateEntrance) (overlay_init 0 SetupOk)) = 1
   \<and> animation_progress (run (replicate 26 AnimateEntrance) (overlay_init 0 SetupOk)) = 1"
proof -
  have a: "\<not> is_closing (overlay_init 0 SetupOk)" by (simp add: init_fields)
  have b: "animation_progress (overlay_init 0 SetupOk) = 0"
    "\<not> shutting_down (overlay_init 0 SetupOk)" by (simp_all add: init_fields)
  from entrance_progress_monotone [OF a, of AnimateEntrance 25 0 SetupOk "[]"]
    entrance_progress_monotone [OF a, of AnimateEntrance 26 0 SetupOk "[]"] b
  show ?thesis by (simp add: safe_animate_entrance_def)
qed

subsection \<open>The closing morph\<close>

lemma teardown_calls_append:
  "teardown_calls (xs @ ys) = teardown_calls xs @ teardown_calls ys"
  by (induction xs rule: teardown_calls.induct) auto

lemma teardown_calls_cleanup:
  "teardown_calls (snd (cleanup ai)) = [AudioCleanup]"
  by (simp add: cleanup_def)

lemma safe_cleanup_fields:
  "teardown_calls (effects (safe_cleanup s)) = teardown_calls (effects s) @ [AudioCleanup, MainQuit]"
  "animation_progress (safe_cleanup s) = animation_progress s"
  "shutting_down (safe_cleanup s) = shutting_down s"
  "is_closing (safe_cleanup s) = is_closing s"
  by (simp_all add: safe_cleanup_def cleanup_def teardown_calls_append split: prod.splits)

lemma closing_step_decreases:
  assumes "is_closing s" and "0 < animation_progress s"
  shows "animation_progress (snd (animate_entrance s)) < animation_progress s"
    and "animation_progress (snd (animate_entrance s)) = max 0 (animation_progress s - 0.04)"
    and "fst (animate_entrance s) \<longleftrightarrow> 0 < animation_progress (snd (animate_entrance s))"
    and "is_closing (snd (animate_entrance s))"
  using assms by (auto simp: animate_entrance_def Let_def safe_cleanup_fields)

lemma closing_tick_continues:
  assumes "is_closing s" and "\<not> shutting_down s" and "0.04 < animation_progress s"
  shows "fst (safe_animate_entrance s)"
    and "animation_progress (snd (safe_animate_entrance s)) = animation_progress s - 0.04"
    and "is_closing (snd (safe_animate_entrance s))"
    and "\<not> shutting_down (snd (safe_animate_entrance s))"
    and "teardown_calls (effects (snd (safe_animate_entrance s))) = teardown_calls (effects s)"
  using assms
  by (auto simp: safe_animate_entrance_def animate_entrance_def Let_def teardown_calls_append)

lemma closing_tick_terminal:
  assumes "is_closing s" and "\<not> shutting_down s" and "animation_progress s \<le> 0.04"
  shows "\<not> fst (safe_animate_entrance s)"
    and "animation_progress (snd (safe_animate_entrance s)) = 0"
    and "shutting_down (snd (safe_animate_entrance s))"
    and "teardown_calls (effects (snd (safe_animate_entrance s)))
           = teardown_calls (effects s) @ [AudioCleanup, MainQuit]"
  using assms
  by (auto simp: safe_animate_entrance_def animate_entrance_def Let_def safe_cleanup_fields)

lemma morph_run_continues:
  assumes "is_closing s" and "\<not> shutting_down s" and "0.04 * real m < animation_progress s"
  shows "fst (morph_run m s)
    \<and> animation_progress (snd (morph_run m s)) = animation_progress s - 0.04 * real m
    \<and> is_closing (snd (morph_run m s)) \<and> \<not> shutting_down (snd (morph_run m s))
    \<and> teardown_calls (effects (snd (morph_run m s))) = teardown_calls (effects s)"
  using assms
proof (induction m arbitrary: s)
  case 0
  then show ?case by simp
next
  case (Suc m)
  let ?s1 = "snd (safe_animate_entrance s)"
  have big: "0.04 < animation_progress s" using Suc.prems(3) by (simp add: algebra_simps)
  note c = closing_tick_continues [OF Suc.prems(1,2) big]
  have "0.04 * real m < animation_progress ?s1"
    using Suc.prems(3) c(2) by (simp add: algebra_simps)
  from Suc.IH [OF c(3) c(4) this]
  have ih: "fst (morph_run m ?s1)
    \<and> animation_progress (snd (morph_run m ?s1)) = animation_progress ?s1 - 0.04 * real m
    \<and> is_closing (snd (morph_run m ?s1)) \<and> \<not> shutting_down (snd (morph_run m ?s1))
    \<and> teardown_calls (effects (snd (morph_run m ?s1))) = teardown_calls (effects ?s1)" .
  have unf: "morph_run (Suc m) s = morph_run m ?s1"
    using c(1) by (cases "safe_animate_entrance s") auto
  have "animation_progress (snd (morph_run m ?s1)) = animation_progress s - 0.04 * real (Suc m)"
  proof -
    from ih have "animation_progress (snd (morph_run m ?s1)) = animation_progress ?s1 - 0.04 * real m"
      by blast
    moreover have "0.04 * real (Suc m) = 0.04 + 0.04 * real m" by (simp add: distrib_left)
    ultimately show ?thesis using c(2) by linarith
  qed
  then show ?case unfolding unf using ih c(5) by simp
qed

lemma morph_run_Suc_end:
  "morph_run (Suc n) s =
     (case morph_run n s of (True, s') \<Rightarrow> safe_animate_entrance s' | (False, s') \<Rightarrow> (False, s'))"
proof (induction n arbitrary: s)
  case 0
  show ?case by (cases "safe_animate_entrance s") (auto split: bool.splits)
next
  case (Suc n)
  show ?case
  proof (cases "safe_animate_entrance s")
    case (Pair b s1)
    show ?thesis
    proof (cases b)
      case True
      with Pair have "morph_run (Suc (Suc n)) s = morph_run (Suc n) s1" by simp
      also have "\<dots> = (case morph_run n s1 of (True, s') \<Rightarrow> safe_animate_entrance s'
                        | (False, s') \<Rightarrow> (False, s'))"
        by (rule Suc.IH)
      also have "morph_run n s1 = morph_run (Suc n) s" using Pair True by simp
      finally show ?thesis .
    next
      case False
      with Pair show ?thesis by simp
    qed
  qed
qed

lemma morph_run_finishes:
  assumes "is_closing s" and "\<not> shutting_down s"
    and "0.04 * real n < animation_progress s" and "animation_progress s \<le> 0.04 * real (Suc n)"
  shows "\<not> fst (morph_run (Suc n) s)
    \<and> animation_progress (snd (morph_run (Suc n) s)) = 0
    \<and> shutting_down (snd (morph_run (Suc n) s))
    \<and> teardown_calls (effects (snd (morph_run (Suc n) s)))
         = teardown_calls (effects s) @ [AudioCleanup, MainQuit]"
proof -
  let ?s' = "snd (morph_run n s)"
  note c = morph_run_continues [OF assms(1,2,3)]
  have small: "animation_progress ?s' \<le> 0.04" using c assms(4) by (simp add: algebra_simps)
  have "morph_run (Suc n) s = safe_animate_entrance ?s'"
    using c by (cases "morph_run n s")
      (auto simp: morph_run_Suc_end simp del: morph_run.simps split: bool.splits)
  then show ?thesis
    using closing_tick_terminal [of ?s'] c small by simp
qed

lemma steps_needed:
  assumes "0 < (p::real)"
  shows "\<exists>n. 0.04 * real n < p \<and> p \<le> 0.04 * real (Suc n)"
proof -
  define N where "N = nat \<lceil>p / 0.04\<rceil>"
  have pos: "0 < \<lceil>p / 0.04\<rceil>" using assms by (simp add: ceiling_less_iff [symmetric] less_ceiling_iff)
  then have N: "real N = of_int \<lceil>p / 0.04\<rceil>" by (simp add: N_def)
  have "N > 0" using pos by (simp add: N_def)
  then obtain n where n: "N = Suc n" by (cases N) auto
  have up: "p / 0.04 \<le> real N" unfolding N by (rule le_of_int_ceiling)
  have lo: "real N - 1 < p / 0.04" unfolding N using ceiling_correct [of "p / 0.04"] by linarith
  from up have "p \<le> 0.04 * real (Suc n)" by (simp add: n field_simps)
  moreover from lo have "0.04 * real n < p" by (simp add: n field_simps)
  ultimately show ?thesis by blast
qed

text \<open>
  Claim C2. While closing with a positive \<open>animation_progress\<close>, a morph tick
  strictly lowers it. Run as a timer from a state not yet shutting down, the morph
  lowers it by 0.04 per tick, staying positive, until one tick sets it to exactly 0;
  that tick makes the two teardown calls, sets the latch and returns \<open>False\<close>, and
  the callback returns \<open>False\<close> from then on.
\<close>

theorem closing_reaches_zero:
  assumes "is_closing s" and "0 < animation_progress s"
  shows "animation_progress (snd (animate_entrance s)) < animation_progress s
    \<and> (\<not> shutting_down s \<longrightarrow>
         (\<exists>n. \<not> fst (morph_run (Suc n) s)
            \<and> animation_progress (snd (morph_run (Suc n) s)) = 0
            \<and> shutting_down (snd (morph_run (Suc n) s))
            \<and> teardown_calls (effects (snd (morph_run (Suc n) s)))
                 = teardown_calls (effects s) @ [AudioCleanup, MainQuit]
            \<and> safe_animate_entrance (snd (morph_run (Suc n) s))
                 = (False, snd (morph_run (Suc n) s))
            \<and> (\<forall>m\<le>n. fst (morph_run m s)
                  \<and> animation_progress (snd (morph_run m s))
                      = animation_progress s - 0.04 * real m
                  \<and> 0 < animation_progress (snd (morph_run m s)))))"
proof -
  have dec: "animation_progress (snd (animate_entrance s)) < animation_progress s"
    by (rule closing_step_decreases(1) [OF assms])
  have run: "\<exists>n. \<not> fst (morph_run (Suc n) s)
            \<and> animation_progress (snd (morph_run (Suc n) s)) = 0
            \<and> shutting_down (snd (morph_run (Suc n) s))
            \<and> teardown_calls (effects (snd (morph_run (Suc n) s)))
                 = teardown_calls (effects s) @ [AudioCleanup, MainQuit]
            \<and> safe_animate_entrance (snd (morph_run (Suc n) s))
                 = (False, snd (morph_run (Suc n) s))
            \<and> (\<forall>m\<le>n. fst (morph_run m s)
                  \<and> animation_progress (snd (morph_run m s))
                      = animation_progress s - 0.04 * real m
                  \<and> 0 < animation_progress (snd (morph_run m s)))"
    if nsd: "\<not> shutting_down s"
  proof -
    from steps_needed [OF assms(2)] obtain n where
      n: "0.04 * real n < animation_progress s" "animation_progress s \<le> 0.04 * real (Suc n)"
      by blast
    note fin = morph_run_finishes [OF assms(1) nsd n]
    have stopped: "safe_animate_entrance (snd (morph_run (Suc n) s))
                 = (False, snd (morph_run (Suc n) s))"
      using fin by (simp add: safe_animate_entrance_def)
    have before: "fst (morph_run m s)
                  \<and> animation_progress (snd (morph_run m s))
                      = animation_progress s - 0.04 * real m
                  \<and> 0 < animation_progress (snd (morph_run m s))" if "m \<le> n" for m
    proof -
      have "0.04 * real m \<le> 0.04 * real n" using that by simp
      with n(1) have lt: "0.04 * real m < animation_progress s" by linarith
      from morph_run_continues [OF assms(1) nsd lt] lt show ?thesis by simp
    qed
    show ?thesis using fin stopped before by blast
  qed
  show ?thesis using dec run by blast
qed

theorem closing_reaches_zero_witness:
  "animation_progress (snd (animate_entrance closing_example)) < animation_progress closing_example
   \<and> (\<exists>n. \<not> fst (morph_run (Suc n) closing_example)
        \<and> animation_progress (snd (morph_run (Suc n) closing_example)) = 0
        \<and> shutting_down (snd (morph_run (Suc n) closing_example)))"
proof -
  have a: "is_closing closing_example" "0 < animation_progress closing_example"
    "\<not> shutting_down closing_example"
    by (simp_all add: closing_example_def overlay_init_def Let_def split: prod.splits)
  from closing_reaches_zero [OF a(1,2)] a(3) show ?thesis by blast
qed

lemma closing_example_run:
  "animation_progress (snd (morph_run 2 closing_example)) = 0.02"
  "fst (morph_run 2 closing_example)"
  "\<not> fst (morph_run 3 closing_example)"
  "animation_progress (snd (morph_run 3 closing_example)) = 0"
  by (simp_all add: closing_example_def overlay_init_def audio_setup_def audio_input_init_def
      error_state_init_def numeral_3_eq_3 numeral_2_eq_2 safe_animate_entrance_def
      animate_entrance_def safe_cleanup_def cleanup_def Let_def)

subsection \<open>Teardown\<close>

lemma step_latched: "shutting_down s \<Longrightarrow> step t s = s"
  by (cases t)
    (simp_all add: safe_position_window_def safe_update_animation_def
      safe_check_processing_mode_def safe_update_audio_levels_def safe_animate_entrance_def
      safe_check_close_signal_def on_destroy_def)

lemma run_latched: "shutting_down s \<Longrightarrow> run ts s = s"
  by (induction ts) (simp_all add: step_latched)

lemma get_level_no_teardown: "teardown_calls (snd (snd (snd (get_level ev ai es)))) = []"
  by (cases ev)
    (auto simp: get_level_def get_level_try_def struct_unpack_def Let_def
      split: exn.splits sum.splits)

lemma apply_level_frame:
  "shutting_down (snd (apply_level level rnd s)) = shutting_down s"
  "effects (snd (apply_level level rnd s)) = effects s"
  by (auto simp: apply_level_def Let_def split: list.splits prod.splits option.splits)

lemma update_audio_levels_teardown:
  "shutting_down (snd (update_audio_levels ev rnd s)) = shutting_down s"
  "teardown_calls (effects (snd (update_audio_levels ev rnd s))) = teardown_calls (effects s)"
proof -
  obtain level ai es fx where g: "get_level ev (audio_in s) (errs s) = (level, ai, es, fx)"
    by (cases "get_level ev (audio_in s) (errs s)") auto
  have "teardown_calls fx = []" using get_level_no_teardown [of ev "audio_in s" "errs s"] g by simp
  then show "shutting_down (snd (update_audio_levels ev rnd s)) = shutting_down s"
    "teardown_calls (effects (snd (update_audio_levels ev rnd s))) = teardown_calls (effects s)"
    using g by (simp_all add: update_audio_levels_def apply_level_frame teardown_calls_append)
qed

lemma safe_update_audio_levels_teardown:
  "shutting_down (snd (safe_update_audio_levels ev rnd s)) = shutting_down s"
  "teardown_calls (effects (snd (safe_update_audio_levels ev rnd s))) = teardown_calls (effects s)"
  using update_audio_levels_teardown [of ev rnd s]
  by (auto simp: safe_update_audio_levels_def split: prod.splits outcome.splits)

lemma update_animation_teardown:
  "shutting_down (snd (safe_update_animation s)) = shutting_down s"
  "teardown_calls (effects (snd (safe_update_animation s))) = teardown_calls (effects s)"
  by (auto simp: safe_update_animation_def update_animation_def Let_def teardown_calls_append
      split: prod.splits outcome.splits option.splits)

lemma animate_entrance_teardown:
  assumes "\<not> shutting_down s"
  shows "(\<not> shutting_down (snd (animate_entrance s))
          \<and> teardown_calls (effects (snd (animate_entrance s))) = teardown_calls (effects s))
       \<or> (shutting_down (snd (animate_entrance s))
          \<and> teardown_calls (effects (snd (animate_entrance s)))
               = teardown_calls (effects s) @ [AudioCleanup, MainQuit])"
  using assms
  by (auto simp: animate_entrance_def Let_def teardown_calls_append safe_cleanup_fields)

lemma step_teardown:
  assumes "\<not> shutting_down s"
  shows "(\<not> shutting_down (step t s)
          \<and> teardown_calls (effects (step t s)) = teardown_calls (effects s))
       \<or> (shutting_down (step t s)
          \<and> teardown_calls (effects (step t s))
               = teardown_calls (effects s) @ [AudioCleanup, MainQuit])"
proof (cases t)
  case (PositionWindow w h sw sh)
  then show ?thesis using assms
    by (auto simp: safe_position_window_def position_window_def Let_def teardown_calls_append)
next
  case UpdateAnimation
  then show ?thesis using assms update_animation_teardown [of s] by simp
next
  case (CheckProcessingMode pf ef now)
  then show ?thesis using assms
    by (auto simp: safe_check_processing_mode_def check_processing_mode_def Let_def
        teardown_calls_append)
next
  case (UpdateAudioLevels ev rnd)
  then show ?thesis using assms safe_update_audio_levels_teardown [of ev rnd s] by simp
next
  case AnimateEntrance
  then show ?thesis using assms animate_entrance_teardown [OF assms]
    by (simp add: safe_animate_entrance_def)
next
  case (CheckCloseSignal f)
  then show ?thesis using assms
    by (auto simp: safe_check_close_signal_def check_close_signal_def teardown_calls_append)
next
  case Destroy
  then show ?thesis using assms by (simp add: on_destroy_def safe_cleanup_fields)
qed

lemma run_teardown:
  "teardown_calls (effects (run ts s))
     = teardown_calls (effects s)
         @ (if shutting_down (run ts s) \<and> \<not> shutting_down s then [AudioCleanup, MainQuit] else [])"
proof (induction ts arbitrary: s)
  case Nil
  show ?case by simp
next
  case (Cons t ts)
  show ?case
  proof (cases "shutting_down s")
    case True
    then show ?thesis by (simp add: run_latched step_latched)
  next
    case False
    from step_teardown [OF False, of t] show ?thesis
    proof
      assume a: "\<not> shutting_down (step t s)
          \<and> teardown_calls (effects (step t s)) = teardown_calls (effects s)"
      with Cons.IH [of "step t s"] False show ?thesis by simp
    next
      assume a: "shutting_down (step t s)
          \<and> teardown_calls (effects (step t s))
               = teardown_calls (effects s) @ [AudioCleanup, MainQuit]"
      then have "run ts (step t s) = step t s" by (simp add: run_latched)
      with a False show ?thesis by simp
    qed
  qed
qed

text \<open>
  Claim C3. Over any run of ticks the teardown calls (audio cleanup, then quitting the
  main loop) are made once if the run sets the latch and never otherwise. With the
  latch set every tick leaves the state as it is. In particular the closing morph
  reaching 0 followed by the destroy handler, and the destroy handler followed by a
  morph tick, each make the two calls once, and the second trigger changes nothing.
\<close>

theorem teardown_once:
  "teardown_calls (effects (run ts s))
     = teardown_calls (effects s)
         @ (if shutting_down (run ts s) \<and> \<not> shutting_down s then [AudioCleanup, MainQuit] else [])
   \<and> (shutting_down s \<longrightarrow> step t s = s)
   \<and> (\<not> shutting_down s \<and> is_closing s \<and> animation_progress s \<le> 0.04 \<longrightarrow>
        teardown_calls (effects (step AnimateEntrance s))
          = teardown_calls (effects s) @ [AudioCleanup, MainQuit]
        \<and> step Destroy (step AnimateEntrance s) = step AnimateEntrance s)
   \<and> (\<not> shutting_down s \<longrightarrow>
        teardown_calls (effects (step Destroy s))
          = teardown_calls (effects s) @ [AudioCleanup, MainQuit]
        \<and> step AnimateEntrance (step Destroy s) = step Destroy s)"
proof -
  have closing: "teardown_calls (effects (step AnimateEntrance s))
          = teardown_calls (effects s) @ [AudioCleanup, MainQuit]
        \<and> step Destroy (step AnimateEntrance s) = step AnimateEntrance s"
    if "\<not> shutting_down s" "is_closing s" "animation_progress s \<le> 0.04"
  proof -
    have "shutting_down (step AnimateEntrance s)"
      and "teardown_calls (effects (step AnimateEntrance s))
          = teardown_calls (effects s) @ [AudioCleanup, MainQuit]"
      using that
      by (auto simp: safe_animate_entrance_def animate_entrance_def Let_def safe_cleanup_fields)
    then show ?thesis using step_latched [of "step AnimateEntrance s" Destroy] by simp
  qed
  have destroy: "teardown_calls (effects (step Destroy s))
          = teardown_calls (effects s) @ [AudioCleanup, MainQuit]
        \<and> step AnimateEntrance (step Destroy s) = step Destroy s"
    if "\<not> shutting_down s"
  proof -
    have "shutting_down (step Destroy s)"
      and "teardown_calls (effects (step Destroy s))
          = teardown_calls (effects s) @ [AudioCleanup, MainQuit]"
      using that by (simp_all add: on_destroy_def safe_cleanup_fields)
    then show ?thesis using step_latched [of "step Destroy s" AnimateEntrance] by simp
  qed
  show ?thesis using run_teardown [of ts s] step_latched [of s t] closing destroy by blast
qed

theorem teardown_once_witness:
  "teardown_calls (effects (run [AnimateEntrance, Destroy] closing_last)) = [AudioCleanup, MainQuit]
   \<and> teardown_calls (effects (run [Destroy, AnimateEntrance] closing_last)) = [AudioCleanup, MainQuit]
   \<and> step Destroy (step AnimateEntrance closing_last) = step AnimateEntrance closing_last
   \<and> step AnimateEntrance (step Destroy closing_last) = step Destroy closing_last"
proof -
  have a: "\<not> shutting_down closing_last" "is_closing closing_last"
    "animation_progress closing_last \<le> 0.04" "teardown_calls (effects closing_last) = []"
    by (simp_all add: closing_last_def overlay_init_def audio_setup_def Let_def)
  from teardown_once [of "[]" closing_last AnimateEntrance] a
  show ?thesis by simp
qed

subsection \<open>Bar interpolation\<close>

lemma animate_bars_result:
  assumes "\<forall>i\<in>set is. i < length tb \<and> i < length bs" and "distinct is"
  shows "fst (animate_bars is tb bs) = None
    \<and> length (snd (animate_bars is tb bs)) = length bs
    \<and> (\<forall>j<length bs. snd (animate_bars is tb bs) ! j
          = (if j \<in> set is then max 0 (min (bs ! j + (tb ! j - bs ! j) * 0.3) 1) else bs ! j))"
  using assms
proof (induction "is" arbitrary: bs)
  case Nil
  show ?case by simp
next
  case (Cons i "is")
  let ?bs1 = "bs[i := max 0 (min (bs ! i + (tb ! i - bs ! i) * 0.3) 1)]"
  have i: "i < length tb" "i < length bs" "i \<notin> set is" using Cons.prems by auto
  have unf: "animate_bars (i # is) tb bs = animate_bars is tb ?bs1"
    using i by (simp add: Let_def)
  have p: "\<forall>k\<in>set is. k < length tb \<and> k < length ?bs1" using Cons.prems by simp
  have d: "distinct is" using Cons.prems by simp
  note ih = Cons.IH [OF p d]
  show ?case
    unfolding unf using ih i by (auto simp: nth_list_update)
qed

lemma update_animation_bars:
  assumes "\<not> processing_mode s" and "length (bars s) = num_bars s"
    and "length (target_bars s) = num_bars s"
  shows "fst (update_animation s) = Returned True"
    and "length (bars (snd (update_animation s))) = num_bars s"
    and "\<forall>i<num_bars s. bars (snd (update_animation s)) ! i
           = max 0 (min (bars s ! i + (target_bars s ! i - bars s ! i) * 0.3) 1)"
    and "target_bars (snd (update_animation s)) = target_bars s"
    and "num_bars (snd (update_animation s)) = num_bars s"
    and "processing_mode (snd (update_animation s)) = processing_mode s"
proof -
  have "\<forall>i\<in>set [0..<num_bars s]. i < length (target_bars s) \<and> i < length (bars s)"
    using assms by simp
  from animate_bars_result [OF this, of ] 
  have r: "fst (animate_bars [0..<num_bars s] (target_bars s) (bars s)) = None
    \<and> length (snd (animate_bars [0..<num_bars s] (target_bars s) (bars s))) = length (bars s)
    \<and> (\<forall>j<length (bars s). snd (animate_bars [0..<num_bars s] (target_bars s) (bars s)) ! j
          = (if j \<in> set [0..<num_bars s]
             then max 0 (min (bars s ! j + (target_bars s ! j - bars s ! j) * 0.3) 1)
             else bars s ! j))"
    by simp
  obtain e bs where ab: "animate_bars [0..<num_bars s] (target_bars s) (bars s) = (e, bs)"
    by (cases "animate_bars [0..<num_bars s] (target_bars s) (bars s)")
  with r have e: "e = None" by simp
  have u: "update_animation s = (Returned True,
      s\<lparr>bars := bs, effects := effects s @ [TimerAreaQueueDraw, WaveformAreaQueueDraw]\<rparr>)"
    using assms(1) ab e by (simp add: update_animation_def)
  show "fst (update_animation s) = Returned True" by (simp add: u)
  show "length (bars (snd (update_animation s))) = num_bars s" using r ab assms by (simp add: u)
  show "\<forall>i<num_bars s. bars (snd (update_animation s)) ! i
           = max 0 (min (bars s ! i + (target_bars s ! i - bars s ! i) * 0.3) 1)"
    using r ab assms by (simp add: u)
  show "target_bars (snd (update_animation s)) = target_bars s" by (simp add: u)
  show "num_bars (snd (update_animation s)) = num_bars s" by (simp add: u)
  show "processing_mode (snd (update_animation s)) = processing_mode s" by (simp add: u)
qed

lemma bar_towards_full:
  assumes "\<not> processing_mode s" and "length (bars s) = num_bars s"
    and "length (target_bars s) = num_bars s" and "i < num_bars s"
    and "target_bars s ! i = 1" and "bars s ! i = 0.1"
  shows "\<not> processing_mode (((\<lambda>s. snd (update_animation s)) ^^ n) s)
    \<and> length (bars (((\<lambda>s. snd (update_animation s)) ^^ n) s)) = num_bars s
    \<and> target_bars (((\<lambda>s. snd (update_animation s)) ^^ n) s) = target_bars s
    \<and> num_bars (((\<lambda>s. snd (update_animation s)) ^^ n) s) = num_bars s
    \<and> bars (((\<lambda>s. snd (update_animation s)) ^^ n) s) ! i = 1 - 0.9 * 0.7 ^ n"
proof (induction n)
  case 0
  show ?case using assms by simp
next
  case (Suc n)
  let ?s = "((\<lambda>s. snd (update_animation s)) ^^ n) s"
  from Suc have a: "\<not> processing_mode ?s" "length (bars ?s) = num_bars ?s"
    "length (target_bars ?s) = num_bars ?s" "i < num_bars ?s"
    using assms by simp_all
  note u = update_animation_bars [OF a(1-3)]
  have b: "bars ?s ! i = 1 - 0.9 * 0.7 ^ n" and t: "target_bars ?s ! i = 1"
    using Suc assms by simp_all
  have pw: "(0.7::real) ^ n \<le> 1" by (simp add: power_le_one)
  have pw0: "0 \<le> (0.7::real) ^ n" by simp
  have "bars (snd (update_animation ?s)) ! i
          = max 0 (min (bars ?s ! i + (target_bars ?s ! i - bars ?s ! i) * 0.3) 1)"
    using u(3) a(4) by blast
  also have "bars ?s ! i + (target_bars ?s ! i - bars ?s ! i) * 0.3 = 1 - 0.9 * 0.7 ^ Suc n"
    by (simp add: b t algebra_simps)
  also have "max 0 (min (1 - 0.9 * 0.7 ^ Suc n) 1) = (1 - 0.9 * 0.7 ^ Suc n :: real)"
    using pw pw0 by (simp add: max_def min_def)
  finally have v: "bars (snd (update_animation ?s)) ! i = 1 - 0.9 * 0.7 ^ Suc n" .
  show ?case using u Suc v by simp
qed

subsection \<open>The audio tick\<close>

lemma floor_tenth: "(if t < 0.1 then 0.1 else t) = max 0.1 (t::real)"
  by (simp add: max_def)

lemma update_target_bars_Cons:
  assumes "nb - 1 - i < length al" and "i < length tb"
  shows "update_target_bars (i # is) rnd nb al tb
     = update_target_bars is rnd nb al (tb[i := max 0.1 (min (al ! (nb - 1 - i) * uniform 0.8 1.2 (rnd i)) 1)])"
proof -
  define x where "x = min (al ! (nb - 1 - i) * uniform 0.8 1.2 (rnd i)) 1"
  have a: "\<not> length al \<le> nb - 1 - i" "\<not> length tb \<le> i" using assms by simp_all
  have "update_target_bars (i # is) rnd nb al tb
     = update_target_bars is rnd nb al (tb[i := (if x < 0.1 then 0.1 else x)])"
    unfolding x_def by (simp only: update_target_bars.simps Let_def a if_False)
  then show ?thesis unfolding floor_tenth x_def .
qed

lemma update_target_bars_result:
  assumes "\<forall>i\<in>set is. nb - 1 - i < length al \<and> i < length tb" and "distinct is"
  shows "fst (update_target_bars is rnd nb al tb) = None
    \<and> length (snd (update_target_bars is rnd nb al tb)) = length tb
    \<and> (\<forall>j<length tb. snd (update_target_bars is rnd nb al tb) ! j
          = (if j \<in> set is then max 0.1 (min (al ! (nb - 1 - j) * uniform 0.8 1.2 (rnd j)) 1) else tb ! j))"
  using assms
proof (induction "is" arbitrary: tb)
  case Nil
  show ?case by simp
next
  case (Cons i "is")
  let ?tb1 = "tb[i := max 0.1 (min (al ! (nb - 1 - i) * uniform 0.8 1.2 (rnd i)) 1)]"
  have i: "nb - 1 - i < length al" "i < length tb" "i \<notin> set is" using Cons.prems by auto
  note unf = update_target_bars_Cons [OF i(1,2), of "is" rnd]
  have p: "\<forall>k\<in>set is. nb - 1 - k < length al \<and> k < length ?tb1" using Cons.prems by simp
  have d: "distinct is" using Cons.prems by simp
  note ih = Cons.IH [OF p d]
  show ?case
    unfolding unf using ih i(2,3) by (auto simp: nth_list_update simp del: update_target_bars.simps)
qed

lemma apply_level_result:
  assumes "shape_ok s"
  shows "fst (apply_level level rnd s) = Returned True"
    and "overall_audio_level (snd (apply_level level rnd s))
           = overall_audio_level s * 0.7 + level * 0.3"
    and "audio_levels (snd (apply_level level rnd s)) = tl (audio_levels s) @ [level]"
    and "\<forall>i<16. target_bars (snd (apply_level level rnd s)) ! i
           = max 0.1 (min ((tl (audio_levels s) @ [level]) ! (16 - 1 - i) * uniform 0.8 1.2 (rnd i)) 1)"
    and "length (target_bars (snd (apply_level level rnd s))) = 16"
    and "bars (snd (apply_level level rnd s)) = bars s"
    and "num_bars (snd (apply_level level rnd s)) = 16"
    and "animation_progress (snd (apply_level level rnd s)) = animation_progress s
         \<and> spinner_angle (snd (apply_level level rnd s)) = spinner_angle s
         \<and> processing_mode (snd (apply_level level rnd s)) = processing_mode s
         \<and> is_closing (snd (apply_level level rnd s)) = is_closing s
         \<and> shutting_down (snd (apply_level level rnd s)) = shutting_down s
         \<and> is_offline (snd (apply_level level rnd s)) = is_offline s
         \<and> start_time (snd (apply_level level rnd s)) = start_time s
         \<and> effects (snd (apply_level level rnd s)) = effects s
         \<and> audio_in (snd (apply_level level rnd s)) = audio_in s
         \<and> errs (snd (apply_level level rnd s)) = errs s"
proof -
  from assms have sh: "num_bars s = 16" "length (bars s) = 16" "length (target_bars s) = 16"
    "length (audio_levels s) = 16" by (simp_all add: shape_ok_def)
  then obtain oldest rest where al: "audio_levels s = oldest # rest" "length rest = 15"
    by (cases "audio_levels s") auto
  let ?al = "rest @ [level]"
  have "\<forall>i\<in>set [0..<16]. 16 - 1 - i < length ?al \<and> i < length (target_bars s)"
    using al sh by auto
  from update_target_bars_result [OF this, of rnd]
  have r: "fst (update_target_bars [0..<16] rnd 16 ?al (target_bars s)) = None
    \<and> length (snd (update_target_bars [0..<16] rnd 16 ?al (target_bars s))) = 16
    \<and> (\<forall>j<16. snd (update_target_bars [0..<16] rnd 16 ?al (target_bars s)) ! j
          = max 0.1 (min (?al ! (16 - 1 - j) * uniform 0.8 1.2 (rnd j)) 1))"
    using sh by simp
  obtain e tb where ut: "update_target_bars [0..<16] rnd 16 ?al (target_bars s) = (e, tb)"
    by (cases "update_target_bars [0..<16] rnd 16 ?al (target_bars s)")
  with r have e: "e = None" by simp
  have u: "apply_level level rnd s = (Returned True,
      s\<lparr>overall_audio_level := overall_audio_level s * 0.7 + level * 0.3,
        audio_levels := ?al, target_bars := tb\<rparr>)"
    using al sh ut e by (simp add: apply_level_def Let_def)
  show "fst (apply_level level rnd s) = Returned True" by (simp add: u)
  show "overall_audio_level (snd (apply_level level rnd s))
           = overall_audio_level s * 0.7 + level * 0.3" by (simp add: u)
  show "audio_levels (snd (apply_level level rnd s)) = tl (audio_levels s) @ [level]"
    by (simp add: u al)
  show "\<forall>i<16. target_bars (snd (apply_level level rnd s)) ! i
           = max 0.1 (min ((tl (audio_levels s) @ [level]) ! (16 - 1 - i) * uniform 0.8 1.2 (rnd i)) 1)"
    using r ut by (simp add: u al)
  show "length (target_bars (snd (apply_level level rnd s))) = 16" using r ut by (simp add: u)
  show "bars (snd (apply_level level rnd s)) = bars s" by (simp add: u)
  show "num_bars (snd (apply_level level rnd s)) = 16" by (simp add: u sh)
  show "animation_progress (snd (apply_level level rnd s)) = animation_progress s
         \<and> spinner_angle (snd (apply_level level rnd s)) = spinner_angle s
         \<and> processing_mode (snd (apply_level level rnd s)) = processing_mode s
         \<and> is_closing (snd (apply_level level rnd s)) = is_closing s
         \<and> shutting_down (snd (apply_level level rnd s)) = shutting_down s
         \<and> is_offline (snd (apply_level level rnd s)) = is_offline s
         \<and> start_time (snd (apply_level level rnd s)) = start_time s
         \<and> effects (snd (apply_level level rnd s)) = effects s
         \<and> audio_in (snd (apply_level level rnd s)) = audio_in s
         \<and> errs (snd (apply_level level rnd s)) = errs s"
    by (simp add: u)
qed

lemma uniform_range:
  assumes "0 \<le> u" and "u \<le> 1"
  shows "0.8 \<le> uniform 0.8 1.2 u" and "uniform 0.8 1.2 u \<le> 1.2"
  using assms by (simp_all add: uniform_def)

lemma shape_ok_audio: "shape_ok (s\<lparr>audio_in := ai, errs := es, effects := fx\<rparr>) = shape_ok s"
  by (simp add: shape_ok_def)

text \<open>
  Claim C6. Outside processing mode, in a state of the initial shape (16 bars), an
  audio tick returns \<open>True\<close> and, with \<open>level\<close> the value \<open>get_level\<close> returns:
  the overall level becomes \<open>overall * 0.7 + level * 0.3\<close>; the history drops its first
  entry and gains \<open>level\<close> at the end, keeping 16 entries; and target bar \<open>i\<close> becomes
  the history entry \<open>16 - 1 - i\<close> times the jitter factor of that bar, capped at 1 and
  then raised to at least 0.1. The factor of bar \<open>i\<close> is \<open>uniform 0.8 1.2\<close> of the
  bar's own draw, and lies in \<open>[0.8, 1.2]\<close> whenever the draw lies in \<open>[0, 1]\<close>, as a
  value of \<open>random()\<close> does. The bars, the morph progress, the spinner angle and the
  mode flags stay as they were.
\<close>

theorem audio_tick_update:
  assumes "\<not> processing_mode s" and "shape_ok s"
  shows "(let level = fst (get_level ev (audio_in s) (errs s));
              s' = snd (update_audio_levels ev rnd s)
          in fst (update_audio_levels ev rnd s) = Returned True
             \<and> overall_audio_level s' = overall_audio_level s * 0.7 + level * 0.3
             \<and> audio_levels s' = tl (audio_levels s) @ [level]
             \<and> length (audio_levels s') = 16
             \<and> length (target_bars s') = 16
             \<and> (\<forall>i<16. target_bars s' ! i
                    = max 0.1 (min (audio_levels s' ! (16 - 1 - i)
                                      * uniform 0.8 1.2 (rnd i)) 1))
             \<and> (\<forall>i<16. 0 \<le> rnd i \<and> rnd i \<le> 1 \<longrightarrow>
                    0.8 \<le> uniform 0.8 1.2 (rnd i) \<and> uniform 0.8 1.2 (rnd i) \<le> 1.2)
             \<and> bars s' = bars s \<and> animation_progress s' = animation_progress s
             \<and> spinner_angle s' = spinner_angle s
             \<and> processing_mode s' = processing_mode s \<and> is_closing s' = is_closing s
             \<and> shutting_down s' = shutting_down s \<and> is_offline s' = is_offline s
             \<and> start_time s' = start_time s \<and> num_bars s' = num_bars s)"
proof -
  obtain level ai es fx where g: "get_level ev (audio_in s) (errs s) = (level, ai, es, fx)"
    by (cases "get_level ev (audio_in s) (errs s)") auto
  let ?s1 = "s\<lparr>audio_in := ai, errs := es, effects := effects s @ fx\<rparr>"
  have u: "update_audio_levels ev rnd s = apply_level level rnd ?s1"
    using assms(1) g by (simp add: update_audio_levels_def)
  have sh: "shape_ok ?s1" using assms(2) by (simp add: shape_ok_audio)
  note r = apply_level_result [OF sh, of level rnd]
  have len: "length (audio_levels s) = 16" "num_bars s = 16"
    using assms(2) by (simp_all add: shape_ok_def)
  have f: "\<forall>i<16. 0 \<le> rnd i \<and> rnd i \<le> 1 \<longrightarrow>
      0.8 \<le> uniform 0.8 1.2 (rnd i) \<and> uniform 0.8 1.2 (rnd i) \<le> 1.2"
    using uniform_range by blast
  show ?thesis
    using r len f by (simp add: u g Let_def)
qed

theorem audio_tick_update_witness:
  "(let s' = snd (update_audio_levels (ReadData [0xDC, 0x05, 0x24, 0xFA]) mid_draw
                (overlay_init 0 SetupOk))
    in overall_audio_level s' = 0.15 \<and> audio_levels s' = replicate 15 0 @ [0.5]
       \<and> target_bars s' ! 0 = 0.5 \<and> target_bars s' ! 1 = 0.1
       \<and> 0.8 \<le> uniform 0.8 1.2 (mid_draw 0) \<and> uniform 0.8 1.2 (mid_draw 0) \<le> 1.2
       \<and> bars s' = replicate 16 0.1)"
proof -
  let ?s = "overlay_init 0 SetupOk"
  have a: "\<not> processing_mode ?s" "shape_ok ?s"
    by (simp_all add: overlay_init_def audio_setup_def shape_ok_def Let_def)
  have f: "audio_in ?s = ai_ok" "errs ?s = error_state_init" "overall_audio_level ?s = 0"
    "audio_levels ?s = replicate 16 0" "bars ?s = replicate 16 0.1"
    by (simp_all add: overlay_init_def audio_setup_def ai_ok_def Let_def)
  have t: "tl (replicate 16 (0::real)) = replicate 15 0" by (simp add: numeral_eq_Suc)
  have d: "0 \<le> mid_draw 0 \<and> mid_draw 0 \<le> 1" "uniform 0.8 1.2 (mid_draw 0) = 1"
    "uniform 0.8 1.2 (mid_draw 1) = 1"
    by (simp_all add: mid_draw_def uniform_def)
  from audio_tick_update [OF a, of "ReadData [0xDC, 0x05, 0x24, 0xFA]" mid_draw] d
  show ?thesis
    by (simp add: f get_level_example Let_def t nth_append)
qed

subsection \<open>Processing mode\<close>

lemma safe_cleanup_frame:
  "bars (safe_cleanup s) = bars s" "target_bars (safe_cleanup s) = target_bars s"
  "audio_levels (safe_cleanup s) = audio_levels s"
  "overall_audio_level (safe_cleanup s) = overall_audio_level s"
  "processing_mode (safe_cleanup s) = processing_mode s"
  "num_bars (safe_cleanup s) = num_bars s"
  "spinner_angle (safe_cleanup s) = spinner_angle s"
  by (simp_all add: safe_cleanup_def split: prod.splits)

lemma animate_entrance_frame:
  "bars (snd (animate_entrance s)) = bars s"
  "target_bars (snd (animate_entrance s)) = target_bars s"
  "audio_levels (snd (animate_entrance s)) = audio_levels s"
  "overall_audio_level (snd (animate_entrance s)) = overall_audio_level s"
  "processing_mode (snd (animate_entrance s)) = processing_mode s"
  "num_bars (snd (animate_entrance s)) = num_bars s"
  "spinner_angle (snd (animate_entrance s)) = spinner_angle s"
  by (simp_all add: animate_entrance_def Let_def safe_cleanup_frame)

lemma processing_audio_tick:
  "processing_mode s \<Longrightarrow> update_audio_levels ev rnd s = (Returned True, s)"
  by (simp add: update_audio_levels_def)

lemma processing_animation_tick:
  "processing_mode s \<Longrightarrow> update_animation s =
     (Returned True,
      s\<lparr>spinner_angle :=
          max 0 (min (if spinner_angle s + 0.15 > 2 * pi then spinner_angle s + 0.15 - 2 * pi
                      else spinner_angle s + 0.15) (2 * pi)),
        effects := effects s @ [TimerAreaQueueDraw, WaveformAreaQueueDraw]\<rparr>)"
  by (simp add: update_animation_def Let_def)

lemma processing_step_frame:
  assumes "processing_mode s"
  shows "bars (step t s) = bars s \<and> target_bars (step t s) = target_bars s
    \<and> audio_levels (step t s) = audio_levels s
    \<and> overall_audio_level (step t s) = overall_audio_level s
    \<and> processing_mode (step t s)"
proof (cases t)
  case (PositionWindow w h sw sh)
  then show ?thesis using assms
    by (simp add: safe_position_window_def position_window_def Let_def)
next
  case UpdateAnimation
  then show ?thesis using assms
    by (simp add: safe_update_animation_def processing_animation_tick)
next
  case (CheckProcessingMode pf ef now)
  then show ?thesis using assms
    by (simp add: safe_check_processing_mode_def check_processing_mode_def Let_def)
next
  case (UpdateAudioLevels ev rnd)
  then show ?thesis using assms
    by (simp add: safe_update_audio_levels_def processing_audio_tick)
next
  case AnimateEntrance
  then show ?thesis using assms
    by (simp add: safe_animate_entrance_def animate_entrance_frame)
next
  case (CheckCloseSignal f)
  then show ?thesis using assms
    by (simp add: safe_check_close_signal_def check_close_signal_def)
next
  case Destroy
  then show ?thesis using assms by (simp add: on_destroy_def safe_cleanup_frame)
qed

lemma processing_run_frame:
  assumes "processing_mode s"
  shows "bars (run ts s) = bars s \<and> target_bars (run ts s) = target_bars s
    \<and> audio_levels (run ts s) = audio_levels s
    \<and> overall_audio_level (run ts s) = overall_audio_level s
    \<and> processing_mode (run ts s)"
  using assms
proof (induction ts arbitrary: s)
  case Nil
  then show ?case by simp
next
  case (Cons t ts)
  from processing_step_frame [OF Cons.prems, of t] Cons.IH [of "step t s"]
  show ?case by simp
qed

text \<open>
  Claim C10. From a state in processing mode, every run of ticks leaves \<open>bars\<close>,
  \<open>target_bars\<close>, the audio history and the overall level as they were, and stays in
  processing mode. The audio tick returns at once with the state untouched; the
  animation tick changes the spinner angle and requests redraws, nothing else.
\<close>

theorem processing_freezes_waveform:
  assumes "processing_mode s"
  shows "bars (run ts s) = bars s \<and> target_bars (run ts s) = target_bars s
    \<and> audio_levels (run ts s) = audio_levels s
    \<and> overall_audio_level (run ts s) = overall_audio_level s
    \<and> processing_mode (run ts s)
    \<and> update_audio_levels ev rnd s = (Returned True, s)
    \<and> update_animation s =
        (Returned True,
         s\<lparr>spinner_angle :=
             max 0 (min (if spinner_angle s + 0.15 > 2 * pi
                         then spinner_angle s + 0.15 - 2 * pi
                         else spinner_angle s + 0.15) (2 * pi)),
           effects := effects s @ [TimerAreaQueueDraw, WaveformAreaQueueDraw]\<rparr>)"
  using processing_run_frame [OF assms, of ts] processing_audio_tick [OF assms, of ev rnd]
    processing_animation_tick [OF assms]
  by simp

theorem processing_freezes_waveform_witness:
  "bars (run [UpdateAudioLevels Inactive mid_draw, UpdateAnimation, AnimateEntrance]
           processing_example) = replicate 16 0.1
   \<and> target_bars (run [UpdateAudioLevels Inactive mid_draw, UpdateAnimation, AnimateEntrance]
           processing_example) = replicate 16 0.1
   \<and> spinner_angle (snd (update_animation processing_example)) = 0.15"
proof -
  have a: "processing_mode processing_example" "bars processing_example = replicate 16 0.1"
    "target_bars processing_example = replicate 16 0.1" "spinner_angle processing_example = 0"
    by (simp_all add: processing_example_def check_processing_mode_def overlay_init_def
        audio_setup_def Let_def)
  have "(0.15::real) < 2 * pi" using pi_ge_two by simp
  with processing_freezes_waveform [OF a(1),
      of "[UpdateAudioLevels Inactive mid_draw, UpdateAnimation, AnimateEntrance]"
         Inactive mid_draw] a(2-4)
  show ?thesis by simp
qed

subsection \<open>Bar interpolation: the claim\<close>

text \<open>
  Claim C5, as amended. Every animation tick taken outside processing mode, in a state
  whose two bar lists have \<open>num_bars\<close> entries, returns \<open>True\<close> and sets every bar
  to \<open>bars[i] + (target_bars[i] - bars[i]) * 0.3\<close> clamped to \<open>[0, 1]\<close>. With the
  target at 1 and the bar at 0.1, the bar exceeds 0.99 after 20 such ticks (it is
  \<open>1 - 0.9 * 0.7 ^ n\<close> after \<open>n\<close>).
\<close>

theorem bars_interpolate:
  assumes "\<not> processing_mode s" and "length (bars s) = num_bars s"
    and "length (target_bars s) = num_bars s"
  shows "fst (update_animation s) = Returned True
    \<and> length (bars (snd (update_animation s))) = num_bars s
    \<and> (\<forall>i<num_bars s. bars (snd (update_animation s)) ! i
           = max 0 (min (bars s ! i + (target_bars s ! i - bars s ! i) * 0.3) 1))
    \<and> (\<forall>i<num_bars s. target_bars s ! i = 1 \<and> bars s ! i = 0.1 \<longrightarrow>
           bars (((\<lambda>s. snd (update_animation s)) ^^ 20) s) ! i > 0.99)"
proof -
  have "bars (((\<lambda>s. snd (update_animation s)) ^^ 20) s) ! i > 0.99"
    if "i < num_bars s" "target_bars s ! i = 1" "bars s ! i = 0.1" for i
  proof -
    from bar_towards_full [OF assms that, of 20]
    have "bars (((\<lambda>s. snd (update_animation s)) ^^ 20) s) ! i = 1 - 0.9 * 0.7 ^ 20" by blast
    moreover have "(0.7::real) ^ 20 < 1 / 90" by (simp add: power_divide)
    ultimately show ?thesis by simp
  qed
  then show ?thesis using update_animation_bars [OF assms] by blast
qed

theorem bars_interpolate_witness:
  "bars (((\<lambda>s. snd (update_animation s)) ^^ 20) full_targets) ! 3 > 0.99
   \<and> fst (update_animation full_targets) = Returned True"
proof -
  have a: "\<not> processing_mode full_targets" "length (bars full_targets) = num_bars full_targets"
    "length (target_bars full_targets) = num_bars full_targets" "3 < num_bars full_targets"
    "target_bars full_targets ! 3 = 1" "bars full_targets ! 3 = 0.1"
    by (simp_all add: full_targets_def overlay_init_def audio_setup_def Let_def)
  from bars_interpolate [OF a(1-3)] a(4-6) show ?thesis by blast
qed

lemma get_level_loud:
  "fst (get_level (ReadData [0xB8, 0x0B]) ai_ok error_state_init) = 1"
proof -
  have q: "sqrt (9000000 :: real) = 3000"
    using real_sqrt_abs [of 3000] by simp
  show ?thesis
    by (simp add: get_level_def get_level_try_def struct_unpack_def ai_ok_def audio_setup_def
        audio_input_init_def max_read_errors_def word_cat_eq q Let_def)
qed

lemma loud_processing_fields:
  "processing_mode loud_processing" "target_bars loud_processing ! 0 = 1"
  "bars loud_processing ! 0 = 0.1"
proof -
  let ?s = "overlay_init 0 SetupOk"
  let ?ev = "ReadData [0xB8, 0x0B]"
  have i: "\<not> processing_mode ?s" "shape_ok ?s" "\<not> shutting_down ?s"
    "audio_in ?s = ai_ok" "errs ?s = error_state_init" "bars ?s = replicate 16 0.1"
    by (simp_all add: overlay_init_def audio_setup_def shape_ok_def ai_ok_def Let_def)
  obtain level ai es fx where g: "get_level ?ev (audio_in ?s) (errs ?s) = (level, ai, es, fx)"
    by (cases "get_level ?ev (audio_in ?s) (errs ?s)") auto
  have lv: "level = 1" using g get_level_loud by (simp add: i)
  let ?s1 = "?s\<lparr>audio_in := ai, errs := es, effects := effects ?s @ fx\<rparr>"
  have u: "update_audio_levels ?ev mid_draw ?s = apply_level level mid_draw ?s1"
    using i(1) g by (simp add: update_audio_levels_def)
  have sh: "shape_ok ?s1" using i(2) by (simp add: shape_ok_audio)
  note r = apply_level_result [OF sh, of level mid_draw]
  let ?t = "snd (apply_level level mid_draw ?s1)"
  have st: "step (UpdateAudioLevels ?ev mid_draw) ?s = ?t"
    using i(3) r(1) u by (cases "apply_level level mid_draw ?s1")
      (simp add: safe_update_audio_levels_def)
  have len: "length (tl (audio_levels ?s1)) = 15"
    by (simp add: overlay_init_def Let_def split: prod.splits)
  have md: "uniform 0.8 1.2 (mid_draw 0) = 1" by (simp add: uniform_def mid_draw_def)
  have "target_bars ?t ! 0
      = max 0.1 (min ((tl (audio_levels ?s1) @ [level]) ! (16 - 1 - 0)
                        * uniform 0.8 1.2 (mid_draw 0)) 1)"
    using r(4) by simp
  also have "(tl (audio_levels ?s1) @ [level]) ! (16 - 1 - 0) = level"
    using len by (simp add: nth_append)
  finally have t0: "target_bars ?t ! 0 = 1" using md by (simp add: lv)
  have b0: "bars ?t = replicate 16 0.1" using r(6) i(6) by simp
  have f: "\<not> shutting_down ?t" "\<not> processing_mode ?t"
    using r(8) i(1,3) by simp_all
  have lp: "loud_processing = snd (check_processing_mode True False 5 ?t)"
    using st f(1) by (simp add: loud_processing_def safe_check_processing_mode_def)
  show "processing_mode loud_processing" "target_bars loud_processing ! 0 = 1"
    "bars loud_processing ! 0 = 0.1"
    using t0 b0 f by (simp_all add: lp check_processing_mode_def Let_def)
qed

text \<open>
  Claim C5 as stated fails, since it speaks of each tick: in processing mode the
  animation tick turns the spinner and leaves the bars. After a loud audio tick and
  the processing signal the first target is 1 and the first bar 0.1, and the bar is
  still 0.1 after one animation tick and after twenty.
\<close>

theorem processing_leaves_bars:
  "target_bars loud_processing ! 0 = 1 \<and> bars loud_processing ! 0 = 0.1
   \<and> bars (snd (update_animation loud_processing)) ! 0 = 0.1
   \<and> bars (run (replicate 20 UpdateAnimation) loud_processing) ! 0 = 0.1"
  using loud_processing_fields
    processing_run_frame [OF loud_processing_fields(1), of "replicate 20 UpdateAnimation"]
  by (simp add: processing_animation_tick)

subsection \<open>The irrationality of pi\<close>

text \<open>
  The spinner angle is a multiple of 0.15 less a multiple of \<open>2 * pi\<close>. That it never
  equals \<open>2 * pi\<close> exactly is the irrationality of \<open>pi\<close>, proved here after Niven:
  were \<open>pi = a / b\<close>, then for \<open>f x = x ^ n * (a - b * x) ^ n / n!\<close> the alternating sum
  \<open>F\<close> of the even derivatives of \<open>f\<close> would make \<open>F pi + F 0\<close> an integer strictly
  between 0 and 1 for large \<open>n\<close>.
\<close>

lemma niven_d_base_deriv:
  "((\<lambda>x. niven_d a b (Suc m) 0 x) has_field_derivative niven_d a b (Suc m) (Suc 0) x) (at x)"
proof -
  have p1: "((\<lambda>x. x ^ Suc m) has_field_derivative real (Suc m) * x ^ m) (at x)"
    using DERIV_pow [of "Suc m" x] by (simp only: diff_Suc_Suc diff_zero)
  have lin: "((\<lambda>x. a - b * x) has_field_derivative (- b)) (at x)"
    by (auto intro!: derivative_eq_intros)
  have p2: "((\<lambda>x. (a - b * x) ^ Suc m) has_field_derivative
      real (Suc m) * (- b * (a - b * x) ^ m)) (at x)"
    using DERIV_power [OF lin, of "Suc m"] by (simp only: diff_Suc_Suc diff_zero)
  have "((\<lambda>x. x ^ Suc m * (a - b * x) ^ Suc m / fact (Suc m)) has_field_derivative
      (real (Suc m) * x ^ m * (a - b * x) ^ Suc m
         + real (Suc m) * (- b * (a - b * x) ^ m) * x ^ Suc m) / fact (Suc m)) (at x)"
    by (rule DERIV_cdivide [OF DERIV_mult [OF p1 p2]])
  moreover have "(real (Suc m) * x ^ m * (a - b * x) ^ Suc m
         + real (Suc m) * (- b * (a - b * x) ^ m) * x ^ Suc m) / fact (Suc m)
      = (a - 2 * b * x) * (x ^ m * (a - b * x) ^ m / fact m)"
  proof -
    have f: "(fact (Suc m) :: real) = real (Suc m) * fact m" by simp
    have nz: "real (Suc m) \<noteq> 0" "(fact m :: real) \<noteq> 0" by simp_all
    have num: "real (Suc m) * x ^ m * (a - b * x) ^ Suc m
         + real (Suc m) * (- b * (a - b * x) ^ m) * x ^ Suc m
        = real (Suc m) * ((a - 2 * b * x) * (x ^ m * (a - b * x) ^ m))"
      by (simp add: algebra_simps)
    have "real (Suc m) * ((a - 2 * b * x) * (x ^ m * (a - b * x) ^ m)) / (real (Suc m) * fact m)
        = (a - 2 * b * x) * (x ^ m * (a - b * x) ^ m) / fact m"
      using nz(1) by (rule mult_divide_mult_cancel_left)
    then show ?thesis unfolding f num by simp
  qed
  ultimately show ?thesis by simp
qed

lemma niven_d_deriv:
  "((\<lambda>x. niven_d a b n j x) has_field_derivative niven_d a b n (Suc j) x) (at x)"
proof (induction n arbitrary: j x)
  case 0
  show ?case by (cases j) simp_all
next
  case (Suc n)
  show ?case
  proof (cases j)
    case 0
    then show ?thesis using niven_d_base_deriv [of a b n x] by simp
  next
    case (Suc i)
    have d1: "((\<lambda>x. niven_d a b n i x) has_field_derivative niven_d a b n (Suc i) x) (at x)"
      by (rule Suc.IH)
    have d2: "((\<lambda>x. real i * niven_d a b n (i - 1) x) has_field_derivative
        real i * niven_d a b n i x) (at x)"
    proof (cases i)
      case 0
      then show ?thesis by simp
    next
      case (Suc k)
      with DERIV_cmult [OF Suc.IH [of k x], of "real i"] show ?thesis by simp
    qed
    have lin2: "((\<lambda>x. a - 2 * b * x) has_field_derivative (- (2 * b))) (at x)"
      by (auto intro!: derivative_eq_intros)
    note m1 = DERIV_mult [OF lin2 d1]
    note m2 = DERIV_cmult [OF d2, of "2 * b"]
    note m3 = DERIV_diff [OF m1 m2]
    have e: "- (2 * b) * niven_d a b n i x + niven_d a b n (Suc i) x * (a - 2 * b * x)
          - 2 * b * (real i * niven_d a b n i x) = niven_d a b (Suc n) (Suc (Suc i)) x"
      by (simp add: algebra_simps)
    have g: "(\<lambda>x. (a - 2 * b * x) * niven_d a b n i x - 2 * b * (real i * niven_d a b n (i - 1) x))
        = (\<lambda>x. niven_d a b (Suc n) (Suc i) x)"
      by (simp add: mult.assoc)
    from m3 show ?thesis unfolding e g Suc .
  qed
qed

lemma niven_d_zero_int: "niven_d (real a) (real b) n j 0 \<in> \<int>"
proof (induction n arbitrary: j)
  case 0
  show ?case by (cases j) simp_all
next
  case (Suc n)
  show ?case
  proof (cases j)
    case 0
    then show ?thesis by simp
  next
    case (Suc i)
    have "real a * niven_d (real a) (real b) n i 0
        - 2 * real b * real i * niven_d (real a) (real b) n (i - 1) 0 \<in> \<int>"
      by (intro Ints_diff Ints_mult Ints_of_nat Suc.IH) simp_all
    then show ?thesis using Suc by simp
  qed
qed

lemma niven_d_reflect:
  assumes "b \<noteq> 0"
  shows "niven_d a b n j (a / b - x) = (- 1) ^ j * niven_d a b n j x"
proof (induction n arbitrary: j)
  case 0
  show ?case using assms by (cases j) simp_all
next
  case (Suc n)
  have lin: "a - 2 * b * (a / b - x) = - (a - 2 * b * x)" using assms by (simp add: field_simps)
  show ?case
  proof (cases j)
    case 0
    have "a - b * (a / b - x) = b * x" using assms by (simp add: field_simps)
    moreover have "(a / b - x) * (b * x) = x * (a - b * x)" using assms by (simp add: field_simps)
    ultimately have "(a / b - x) ^ Suc n * (a - b * (a / b - x)) ^ Suc n
        = x ^ Suc n * (a - b * x) ^ Suc n"
      by (metis power_mult_distrib)
    then show ?thesis using 0 by simp
  next
    case (Suc i)
    define X where "X = niven_d a b n i x"
    define Y where "Y = niven_d a b n (i - 1) x"
    define s :: real where "s = (- 1) ^ i"
    have r: "real i * (- 1) ^ (i - 1) = - (real i * s)"
      by (cases i) (simp_all add: s_def)
    have "niven_d a b (Suc n) (Suc i) (a / b - x)
        = - (a - 2 * b * x) * (s * X) - 2 * b * (real i * (- 1) ^ (i - 1)) * Y"
      using Suc.IH [of i] Suc.IH [of "i - 1"] by (simp add: lin X_def Y_def s_def)
    also have "\<dots> = - s * ((a - 2 * b * x) * X - 2 * b * real i * Y)"
      unfolding r by (simp add: algebra_simps)
    also have "\<dots> = (- 1) ^ Suc i * niven_d a b (Suc n) (Suc i) x"
      by (simp add: X_def Y_def s_def)
    finally show ?thesis using Suc by simp
  qed
qed

lemma niven_d_high: "2 * n < j \<Longrightarrow> niven_d a b n j x = 0"
proof (induction n arbitrary: j)
  case 0
  then show ?case by (cases j) simp_all
next
  case (Suc n)
  then obtain i where j: "j = Suc i" by (cases j) auto
  with Suc.prems have "2 * n < i" "2 * n < i - 1" by simp_all
  then show ?case using Suc.IH j by simp
qed

lemma niven_telescope:
  "(\<Sum>i\<le>m. (- 1) ^ i * (niven_d a b n (2 * i + 2) x + niven_d a b n (2 * i) x))
     = niven_d a b n 0 x + (- 1) ^ m * niven_d a b n (2 * m + 2) x"
  by (induction m) (simp_all add: algebra_simps)

lemma small_power_over_fact:
  assumes "0 < (c::real)"
  shows "\<exists>n. c * (y ^ n / fact n) < 1"
proof -
  have "(\<lambda>n. inverse (fact n) * y ^ n) \<longlonglongrightarrow> 0"
    by (rule summable_LIMSEQ_zero [OF summable_exp])
  moreover have "(0::real) < 1 / c" using assms by simp
  ultimately have "eventually (\<lambda>n. inverse (fact n) * y ^ n < 1 / c) sequentially"
    by (rule order_tendstoD)
  then obtain n where "inverse (fact n) * y ^ n < 1 / c"
    by (auto simp: eventually_sequentially)
  then have "c * (y ^ n / fact n) < 1" using assms by (simp add: field_simps)
  then show ?thesis ..
qed

lemma pi_not_quotient:
  assumes "0 < a" and "0 < b" and piq: "pi = real a / real b"
  shows False
proof -
  let ?a = "real a" and ?b = "real b"
  have b0: "?b \<noteq> 0" using assms by simp
  from small_power_over_fact [OF pi_gt_zero, of "pi * ?a"]
  obtain n where n: "pi * ((pi * ?a) ^ n / fact n) < 1" by blast
  define D where "D = niven_d ?a ?b n"
  define F where "F x = (\<Sum>i\<le>n. (- 1) ^ i * D (2 * i) x)" for x
  define F1 where "F1 x = (\<Sum>i\<le>n. (- 1) ^ i * D (2 * i + 1) x)" for x
  define F2 where "F2 x = (\<Sum>i\<le>n. (- 1) ^ i * D (2 * i + 2) x)" for x
  define G where "G x = F1 x * sin x - F x * cos x" for x
  have dD: "(D j has_field_derivative D (Suc j) x) (at x)" for j x
    unfolding D_def by (rule niven_d_deriv)
  have dF: "(F has_field_derivative F1 x) (at x)" for x
  proof -
    have "((\<lambda>x. \<Sum>i\<le>n. (- 1) ^ i * D (2 * i) x) has_field_derivative
        (\<Sum>i\<le>n. (- 1) ^ i * D (2 * i + 1) x)) (at x)"
      by (rule DERIV_sum) (use dD in \<open>auto intro!: DERIV_cmult\<close>)
    then show ?thesis unfolding F_def [abs_def] F1_def .
  qed
  have dF1: "(F1 has_field_derivative F2 x) (at x)" for x
  proof -
    have "((\<lambda>x. \<Sum>i\<le>n. (- 1) ^ i * D (2 * i + 1) x) has_field_derivative
        (\<Sum>i\<le>n. (- 1) ^ i * D (2 * i + 2) x)) (at x)"
      by (rule DERIV_sum) (use dD in \<open>auto intro!: DERIV_cmult\<close>)
    then show ?thesis unfolding F1_def [abs_def] F2_def .
  qed
  have sumF: "F2 x + F x = D 0 x" for x
  proof -
    have "F2 x + F x = (\<Sum>i\<le>n. (- 1) ^ i * (D (2 * i + 2) x + D (2 * i) x))"
      by (simp add: F2_def F_def sum.distrib [symmetric] algebra_simps)
    also have "\<dots> = D 0 x + (- 1) ^ n * D (2 * n + 2) x"
      unfolding D_def by (rule niven_telescope)
    also have "D (2 * n + 2) x = 0" unfolding D_def by (rule niven_d_high) simp
    finally show ?thesis by simp
  qed
  have dG: "(G has_field_derivative D 0 x * sin x) (at x)" for x
  proof -
    have "((\<lambda>x. F1 x * sin x - F x * cos x) has_field_derivative
        (F2 x * sin x + cos x * F1 x) - (F1 x * cos x + (- sin x) * F x)) (at x)"
      by (intro DERIV_diff DERIV_mult dF dF1 DERIV_sin DERIV_cos)
    moreover have "(F2 x * sin x + cos x * F1 x) - (F1 x * cos x + (- sin x) * F x)
        = (F2 x + F x) * sin x"
      by (simp add: algebra_simps)
    ultimately show ?thesis unfolding G_def [abs_def] sumF by simp
  qed
  from MVT2 [of 0 pi G "\<lambda>x. D 0 x * sin x"] dG pi_gt_zero
  obtain z where z: "0 < z" "z < pi" "G pi - G 0 = (pi - 0) * (D 0 z * sin z)" by blast
  have GK: "G pi - G 0 = F pi + F 0" by (simp add: G_def)
  have int0: "D j 0 \<in> \<int>" for j unfolding D_def by (rule niven_d_zero_int)
  have "D j pi = (- 1) ^ j * D j 0" for j
    using niven_d_reflect [OF b0, of ?a n j 0] by (simp add: D_def piq)
  then have intpi: "D j pi \<in> \<int>" for j using int0 [of j] by simp
  have "F pi + F 0 \<in> \<int>"
    unfolding F_def by (intro Ints_add Ints_sum Ints_mult Ints_power intpi int0) simp_all
  then have K: "G pi - G 0 \<in> \<int>" by (simp add: GK)
  have bz: "?b * z < ?a"
  proof -
    have "?b * z < ?b * pi" using z(2) assms(2) by simp
    also have "\<dots> = ?a" using b0 by (simp add: piq)
    finally show ?thesis .
  qed
  have sz: "0 < sin z" "sin z \<le> 1" using z by (simp_all add: sin_gt_zero)
  have D0: "D 0 z = z ^ n * (?a - ?b * z) ^ n / fact n" by (simp add: D_def)
  have Dpos: "0 < D 0 z" unfolding D0 using z(1) bz by simp
  have Dle: "D 0 z \<le> (pi * ?a) ^ n / fact n"
  proof -
    have "z ^ n \<le> pi ^ n" using z by (intro power_mono) simp_all
    moreover have "(?a - ?b * z) ^ n \<le> ?a ^ n"
      using bz z(1) by (intro power_mono) simp_all
    moreover have "0 \<le> (?a - ?b * z) ^ n" using bz by simp
    ultimately have "z ^ n * (?a - ?b * z) ^ n \<le> pi ^ n * ?a ^ n"
      by (intro mult_mono) simp_all
    then show ?thesis unfolding D0 by (simp add: power_mult_distrib divide_right_mono)
  qed
  have pos: "0 < G pi - G 0" using z Dpos sz by simp
  have "D 0 z * sin z \<le> (pi * ?a) ^ n / fact n"
  proof -
    have "D 0 z * sin z \<le> D 0 z * 1" using Dpos sz(2) by (intro mult_left_mono) simp_all
    with Dle show ?thesis by simp
  qed
  then have "pi * (D 0 z * sin z) \<le> pi * ((pi * ?a) ^ n / fact n)"
    by (rule mult_left_mono) simp
  then have "G pi - G 0 \<le> pi * ((pi * ?a) ^ n / fact n)"
    using z(3) by simp
  with n have lt1: "G pi - G 0 < 1" by linarith
  from K pos have "1 \<le> \<bar>G pi - G 0\<bar>" by (intro Ints_nonzero_abs_ge1) simp_all
  with pos lt1 show False by simp
qed

lemma pi_irrational: "pi \<notin> \<rat>"
proof
  assume "pi \<in> \<rat>"
  then obtain m n :: nat where mn: "n \<noteq> 0" "\<bar>pi\<bar> = real m / real n"
    by (rule Rats_abs_nat_div_natE)
  then have p: "pi = real m / real n" by simp
  have "0 < m" using p pi_gt_zero by (cases "m = 0") auto
  with mn(1) p show False using pi_not_quotient [of m n] by simp
qed

subsection \<open>Ranges of the float fields\<close>

lemma get_level_unit: "in_unit (fst (get_level ev ai es))"
proof (cases "get_level_try ev ai")
  case (Inl r)
  then show ?thesis by (simp add: get_level_caught in_unit_def)
next
  case (Inr r)
  obtain level ai' fx where r: "r = (level, ai', fx)" by (cases r)
  with Inr get_level_try_range [of ev ai level ai' fx] show ?thesis
    by (simp add: get_level_def in_unit_def)
qed

lemma clamp_unit: "in_unit (max 0 (min x 1))"
  by (simp add: in_unit_def)

lemma target_unit: "in_unit (max 0.1 (min x 1))"
  by (simp add: in_unit_def max_def min_def)

text \<open>The wrapped angle: a multiple of 0.15 less a multiple of a full turn.\<close>

lemma spinner_never_full_turn: "0.15 * real k - 2 * pi * real m \<noteq> 2 * pi"
proof
  assume e: "0.15 * real k - 2 * pi * real m = 2 * pi"
  then have "0.15 * real k = 2 * pi * real (Suc m)" by (simp add: algebra_simps)
  then have "pi = real (3 * k) / real (40 * Suc m)" by (simp add: field_simps)
  moreover have "0 < 3 * k"
  proof (cases k)
    case 0
    with e have "2 * pi * (real m + 1) = 0" by (simp add: algebra_simps)
    then show ?thesis by simp
  qed simp
  ultimately show False using pi_not_quotient [of "3 * k" "40 * Suc m"] by simp
qed

lemma spinner_tick:
  assumes "processing_mode s" and "0 \<le> spinner_angle s" and "spinner_angle s < 2 * pi"
    and "\<exists>k m :: nat. spinner_angle s = 0.15 * real k - 2 * pi * real m"
  shows "0 \<le> spinner_angle (snd (update_animation s))
    \<and> spinner_angle (snd (update_animation s)) < 2 * pi
    \<and> (\<exists>k m :: nat. spinner_angle (snd (update_animation s)) = 0.15 * real k - 2 * pi * real m)"
proof -
  from assms(4) obtain k m :: nat where km: "spinner_angle s = 0.15 * real k - 2 * pi * real m"
    by blast
  define a where "a = spinner_angle s + 0.15"
  have big: "(0.15::real) < 2 * pi" using pi_ge_two by simp
  have new: "spinner_angle (snd (update_animation s))
      = max 0 (min (if a > 2 * pi then a - 2 * pi else a) (2 * pi))"
    using assms(1) by (simp add: processing_animation_tick a_def)
  have ak: "a = 0.15 * real (Suc k) - 2 * pi * real m" by (simp add: a_def km algebra_simps)
  show ?thesis
  proof (cases "a > 2 * pi")
    case True
    have "a - 2 * pi < 0.15" using assms(3) by (simp add: a_def)
    with True big have v: "spinner_angle (snd (update_animation s)) = a - 2 * pi"
      by (simp add: new max_def min_def)
    have "a - 2 * pi = 0.15 * real (Suc k) - 2 * pi * real (Suc m)"
      by (simp add: ak algebra_simps)
    then have "\<exists>k m :: nat. a - 2 * pi = 0.15 * real k - 2 * pi * real m" by blast
    with v True \<open>a - 2 * pi < 0.15\<close> big show ?thesis by simp
  next
    case False
    have "a \<noteq> 2 * pi" unfolding ak by (rule spinner_never_full_turn)
    with False have lt: "a < 2 * pi" by simp
    have "0 \<le> a" using assms(2) by (simp add: a_def)
    with lt False have v: "spinner_angle (snd (update_animation s)) = a"
      by (simp add: new max_def min_def)
    have "\<exists>k m :: nat. a = 0.15 * real k - 2 * pi * real m" using ak by blast
    with v lt \<open>0 \<le> a\<close> show ?thesis by simp
  qed
qed

text \<open>
  What every tick keeps, whatever level is read: the shape, the ranges and the form
  of the spinner angle.
\<close>

lemma init_ok:
  "shape_ok (overlay_init now ev)" "ranges_ok (overlay_init now ev)"
  "\<exists>k m :: nat. spinner_angle (overlay_init now ev) = 0.15 * real k - 2 * pi * real m"
  "in_unit (overall_audio_level (overlay_init now ev))"
proof -
  show "shape_ok (overlay_init now ev)" "ranges_ok (overlay_init now ev)"
    "in_unit (overall_audio_level (overlay_init now ev))"
    by (simp_all add: overlay_init_def shape_ok_def ranges_ok_def in_unit_def Let_def
        list_all_length split: prod.splits)
  have "spinner_angle (overlay_init now ev) = 0.15 * real (0::nat) - 2 * pi * real (0::nat)"
    by (simp add: overlay_init_def Let_def split: prod.splits)
  then show "\<exists>k m :: nat. spinner_angle (overlay_init now ev) = 0.15 * real k - 2 * pi * real m"
    by blast
qed

lemma update_animation_ok:
  assumes "shape_ok s" and "ranges_ok s"
    and "\<exists>k m :: nat. spinner_angle s = 0.15 * real k - 2 * pi * real m"
  shows "shape_ok (snd (update_animation s)) \<and> ranges_ok (snd (update_animation s))
    \<and> (\<exists>k m :: nat. spinner_angle (snd (update_animation s)) = 0.15 * real k - 2 * pi * real m)
    \<and> overall_audio_level (snd (update_animation s)) = overall_audio_level s
    \<and> fst (update_animation s) = Returned True"
proof (cases "processing_mode s")
  case True
  from assms(2) have r: "0 \<le> spinner_angle s" "spinner_angle s < 2 * pi"
    by (simp_all add: ranges_ok_def)
  note t = spinner_tick [OF True r assms(3)]
  have fr: "bars (snd (update_animation s)) = bars s"
    "target_bars (snd (update_animation s)) = target_bars s"
    "audio_levels (snd (update_animation s)) = audio_levels s"
    "num_bars (snd (update_animation s)) = num_bars s"
    "animation_progress (snd (update_animation s)) = animation_progress s"
    "overall_audio_level (snd (update_animation s)) = overall_audio_level s"
    "fst (update_animation s) = Returned True"
    using True by (simp_all add: processing_animation_tick)
  show ?thesis using assms(1,2) t fr by (simp add: shape_ok_def ranges_ok_def)
next
  case False
  from assms have sh: "length (bars s) = num_bars s" "length (target_bars s) = num_bars s"
    "num_bars s = 16" "length (audio_levels s) = 16"
    by (simp_all add: shape_ok_def)
  note u = update_animation_bars [OF False sh(1,2)]
  let ?s' = "snd (update_animation s)"
  have b: "list_all in_unit (bars ?s')"
    using u(2,3) by (simp add: list_all_length clamp_unit)
  have rest: "audio_levels ?s' = audio_levels s" "overall_audio_level ?s' = overall_audio_level s"
    "animation_progress ?s' = animation_progress s" "spinner_angle ?s' = spinner_angle s"
    using False
    by (auto simp: update_animation_def split: prod.splits option.splits)
  show ?thesis
    using assms u b rest sh by (simp add: shape_ok_def ranges_ok_def)
qed

lemma apply_level_ok:
  assumes "shape_ok s" and "ranges_ok s"
  shows "shape_ok (snd (apply_level level rnd s)) \<and> ranges_ok (snd (apply_level level rnd s))
    \<and> spinner_angle (snd (apply_level level rnd s)) = spinner_angle s
    \<and> overall_audio_level (snd (apply_level level rnd s))
         = overall_audio_level s * 0.7 + level * 0.3
    \<and> fst (apply_level level rnd s) = Returned True"
proof -
  note r = apply_level_result [OF assms(1), of level rnd]
  let ?s' = "snd (apply_level level rnd s)"
  from assms(1) have sh: "num_bars s = 16" "length (bars s) = 16" "length (target_bars s) = 16"
    "length (audio_levels s) = 16" by (simp_all add: shape_ok_def)
  have t: "list_all in_unit (target_bars ?s')"
    using r(4,5) by (simp add: list_all_length target_unit)
  have len: "length (audio_levels ?s') = 16" using r(3) sh by simp
  show ?thesis
    using assms(2) r t len sh by (simp add: shape_ok_def ranges_ok_def)
qed

lemma unit_average:
  assumes "in_unit x" and "in_unit level"
  shows "in_unit (x * 0.7 + level * 0.3)"
  using assms by (simp add: in_unit_def)

lemma ranges_ok_audio:
  "ranges_ok (s\<lparr>audio_in := ai, errs := es, effects := fx\<rparr>) = ranges_ok s"
  by (simp add: ranges_ok_def)

lemma update_audio_levels_ok:
  assumes "shape_ok s" and "ranges_ok s"
  shows "shape_ok (snd (update_audio_levels ev rnd s))
    \<and> ranges_ok (snd (update_audio_levels ev rnd s))
    \<and> spinner_angle (snd (update_audio_levels ev rnd s)) = spinner_angle s
    \<and> (in_unit (overall_audio_level s)
         \<longrightarrow> in_unit (overall_audio_level (snd (update_audio_levels ev rnd s))))
    \<and> fst (update_audio_levels ev rnd s) = Returned True"
proof (cases "processing_mode s")
  case True
  then show ?thesis using assms by (simp add: processing_audio_tick)
next
  case False
  obtain level ai es fx where g: "get_level ev (audio_in s) (errs s) = (level, ai, es, fx)"
    by (cases "get_level ev (audio_in s) (errs s)") auto
  have lv: "in_unit level" using get_level_unit [of ev "audio_in s" "errs s"] g by simp
  let ?s1 = "s\<lparr>audio_in := ai, errs := es, effects := effects s @ fx\<rparr>"
  have u: "update_audio_levels ev rnd s = apply_level level rnd ?s1"
    using False g by (simp add: update_audio_levels_def)
  have "shape_ok ?s1" "ranges_ok ?s1" using assms by (simp_all add: shape_ok_audio ranges_ok_audio)
  from apply_level_ok [OF this, of level rnd] unit_average [OF _ lv, of "overall_audio_level s"]
  show ?thesis by (simp add: u)
qed

lemma update_audio_levels_given_ok:
  assumes "shape_ok s" and "ranges_ok s"
  shows "shape_ok (snd (update_audio_levels_given level rnd s))
    \<and> ranges_ok (snd (update_audio_levels_given level rnd s))
    \<and> spinner_angle (snd (update_audio_levels_given level rnd s)) = spinner_angle s
    \<and> (in_unit (overall_audio_level s) \<and> in_unit level
         \<longrightarrow> in_unit (overall_audio_level (snd (update_audio_levels_given level rnd s))))
    \<and> fst (update_audio_levels_given level rnd s) = Returned True"
proof (cases "processing_mode s")
  case True
  then show ?thesis using assms by (simp add: update_audio_levels_given_def)
next
  case False
  from apply_level_ok [OF assms, of level rnd] unit_average [of "overall_audio_level s" level]
  show ?thesis using False by (simp add: update_audio_levels_given_def)
qed

lemma animate_entrance_ok:
  assumes "shape_ok s" and "ranges_ok s"
  shows "shape_ok (snd (animate_entrance s)) \<and> ranges_ok (snd (animate_entrance s))"
proof -
  have p: "in_unit (animation_progress (snd (animate_entrance s)))"
    using assms(2)
    by (auto simp: animate_entrance_def Let_def ranges_ok_def in_unit_def safe_cleanup_fields)
  show ?thesis
    using assms p by (simp add: shape_ok_def ranges_ok_def animate_entrance_frame)
qed

lemma step_ok:
  assumes "shape_ok s" and "ranges_ok s"
    and "\<exists>k m :: nat. spinner_angle s = 0.15 * real k - 2 * pi * real m"
  shows "shape_ok (step t s) \<and> ranges_ok (step t s)
    \<and> (\<exists>k m :: nat. spinner_angle (step t s) = 0.15 * real k - 2 * pi * real m)
    \<and> (in_unit (overall_audio_level s) \<longrightarrow> in_unit (overall_audio_level (step t s)))"
proof (cases "shutting_down s")
  case True
  then show ?thesis using assms by (simp add: step_latched)
next
  case nsd: False
  show ?thesis
  proof (cases t)
    case (PositionWindow w h sw sh)
    then show ?thesis using assms
      by (simp add: safe_position_window_def position_window_def Let_def shape_ok_def ranges_ok_def)
  next
    case UpdateAnimation
    then show ?thesis using update_animation_ok [OF assms] nsd
      by (cases "update_animation s") (auto simp: safe_update_animation_def)
  next
    case (CheckProcessingMode pf ef now)
    have z: "(0::real) = 0.15 * real (0::nat) - 2 * pi * real (0::nat)" by simp
    have "\<exists>k m :: nat. (0::real) = 0.15 * real k - 2 * pi * real m"
      using z by blast
    with CheckProcessingMode show ?thesis using assms
      by (simp add: safe_check_processing_mode_def check_processing_mode_def Let_def
          shape_ok_def ranges_ok_def)
  next
    case (UpdateAudioLevels ev rnd)
    then show ?thesis using update_audio_levels_ok [OF assms(1,2), of ev rnd] nsd assms(3)
      by (cases "update_audio_levels ev rnd s") (auto simp: safe_update_audio_levels_def)
  next
    case AnimateEntrance
    then show ?thesis using animate_entrance_ok [OF assms(1,2)] nsd assms(3)
      by (simp add: safe_animate_entrance_def animate_entrance_frame)
  next
    case (CheckCloseSignal f)
    then show ?thesis using assms
      by (simp add: safe_check_close_signal_def check_close_signal_def shape_ok_def ranges_ok_def)
  next
    case Destroy
    then show ?thesis using assms nsd
      by (simp add: on_destroy_def shape_ok_def ranges_ok_def safe_cleanup_frame
          safe_cleanup_fields)
  qed
qed

lemma sampled_step_ok:
  assumes "shape_ok s" and "ranges_ok s"
    and "\<exists>k m :: nat. spinner_angle s = 0.15 * real k - 2 * pi * real m"
  shows "shape_ok (sampled_step t s) \<and> ranges_ok (sampled_step t s)
    \<and> (\<exists>k m :: nat. spinner_angle (sampled_step t s) = 0.15 * real k - 2 * pi * real m)
    \<and> (in_unit (overall_audio_level s) \<and> unit_level t
         \<longrightarrow> in_unit (overall_audio_level (sampled_step t s)))"
proof (cases t)
  case (Tick u)
  then show ?thesis using step_ok [OF assms, of u] by simp
next
  case (SampledLevel level rnd)
  show ?thesis
  proof (cases "shutting_down s")
    case True
    then show ?thesis using assms SampledLevel by (simp add: safe_update_audio_levels_given_def)
  next
    case False
    then show ?thesis
      using update_audio_levels_given_ok [OF assms(1,2), of level rnd] assms(3) SampledLevel
      by (cases "update_audio_levels_given level rnd s")
        (auto simp: safe_update_audio_levels_given_def in_unit_def)
  qed
qed

lemma sampled_run_ok:
  assumes "shape_ok s" and "ranges_ok s"
    and "\<exists>k m :: nat. spinner_angle s = 0.15 * real k - 2 * pi * real m"
  shows "shape_ok (sampled_run ts s) \<and> ranges_ok (sampled_run ts s)
    \<and> (in_unit (overall_audio_level s) \<and> list_all unit_level ts
         \<longrightarrow> in_unit (overall_audio_level (sampled_run ts s)))"
  using assms
proof (induction ts arbitrary: s)
  case Nil
  then show ?case by simp
next
  case (Cons t ts)
  note st = sampled_step_ok [OF Cons.prems, of t]
  from st have a: "shape_ok (sampled_step t s)" "ranges_ok (sampled_step t s)"
    "\<exists>k m :: nat. spinner_angle (sampled_step t s) = 0.15 * real k - 2 * pi * real m"
    by blast+
  from Cons.IH [OF a] st show ?case by simp
qed

lemma sampled_run_ticks: "sampled_run (map Tick us) s = run us s"
  by (induction us arbitrary: s) simp_all

lemma all_ticks_unit: "list_all unit_level (map Tick us)"
  by (induction us) simp_all

text \<open>
  Claim C1, as amended. After every run of ticks from the initial state, whatever
  real number (negative or above 1 included) a level sampler returns at each audio
  tick: the three lists keep their 16 entries, every bar and every target lies in
  \<open>[0, 1]\<close>, \<open>animation_progress\<close> lies in \<open>[0, 1]\<close> and the spinner angle lies in
  \<open>[0, 2 * pi)\<close>. The overall level lies in \<open>[0, 1]\<close> provided every level returned
  lies in \<open>[0, 1]\<close>. That is so for the program's own ticks, whose level comes from
  \<open>get_level\<close>: for them all the ranges hold.
\<close>

theorem ranges_hold_from_initial_state:
  "shape_ok (sampled_run ts (overlay_init now ev))
   \<and> ranges_ok (sampled_run ts (overlay_init now ev))
   \<and> (list_all unit_level ts
        \<longrightarrow> in_unit (overall_audio_level (sampled_run ts (overlay_init now ev))))
   \<and> sampled_run (map Tick us) (overlay_init now ev) = run us (overlay_init now ev)
   \<and> shape_ok (run us (overlay_init now ev)) \<and> ranges_ok (run us (overlay_init now ev))
   \<and> in_unit (overall_audio_level (run us (overlay_init now ev)))"
proof -
  note i = init_ok [of now ev]
  note a = sampled_run_ok [OF i(1-3), of ts]
  note b = sampled_run_ok [OF i(1-3), of "map Tick us"]
  show ?thesis
    using a b i(4) all_ticks_unit [of us] sampled_run_ticks [of us "overlay_init now ev"]
    by simp
qed

theorem ranges_hold_from_initial_state_witness:
  "ranges_ok (sampled_run [SampledLevel (- 5) mid_draw, Tick UpdateAnimation,
                           SampledLevel 7 mid_draw, Tick (CheckProcessingMode True False 5),
                           Tick UpdateAnimation] (overlay_init 0 SetupOk))
   \<and> in_unit (overall_audio_level
        (sampled_run [SampledLevel 0.5 mid_draw, Tick (UpdateAudioLevels Inactive mid_draw)]
           (overlay_init 0 SetupOk)))"
proof -
  have u: "list_all unit_level
      [SampledLevel 0.5 mid_draw, Tick (UpdateAudioLevels Inactive mid_draw)]"
    by simp
  from ranges_hold_from_initial_state
      [of "[SampledLevel (- 5) mid_draw, Tick UpdateAnimation,
            SampledLevel 7 mid_draw, Tick (CheckProcessingMode True False 5),
            Tick UpdateAnimation]" 0 SetupOk "[]"]
    ranges_hold_from_initial_state
      [of "[SampledLevel 0.5 mid_draw, Tick (UpdateAudioLevels Inactive mid_draw)]" 0 SetupOk "[]"]
    u
  show ?thesis by blast
qed

text \<open>
  Claim C1 as stated fails: nothing in \<open>update_audio_levels\<close> checks the level. When
  the sampler returns -1 at the first audio tick from the initial state, the overall
  level is -0.3.
\<close>

theorem negative_level_leaves_range:
  "overall_audio_level (sampled_run [SampledLevel (- 1) mid_draw] (overlay_init 0 SetupOk))
     = - 0.3
   \<and> \<not> in_unit (overall_audio_level
            (sampled_run [SampledLevel (- 1) mid_draw] (overlay_init 0 SetupOk)))"
proof -
  let ?s = "overlay_init 0 SetupOk"
  have sh: "shape_ok ?s" by (rule init_ok)
  have o: "overall_audio_level ?s = 0" "\<not> shutting_down ?s" "\<not> processing_mode ?s"
    by (simp_all add: overlay_init_def Let_def split: prod.splits)
  from apply_level_result(1,2) [OF sh, of "- 1" mid_draw] o
  have "overall_audio_level (snd (safe_update_audio_levels_given (- 1) mid_draw ?s)) = - 0.3"
    by (cases "apply_level (- 1) mid_draw ?s")
      (simp add: safe_update_audio_levels_given_def update_audio_levels_given_def)
  then show ?thesis by (simp add: in_unit_def)
qed

end
